theory Spec2Isabelle
  imports Complex_Main
begin

section \<open>The printer-linter's Definition rule (printerlinter/linters/defintion.py)\<close>

text \<open>
  The linter works on parsed JSON documents, which Python holds as dynamically typed
  values. The model keeps them dynamically typed: every operation that Python would
  refuse on a value of the wrong shape is a branch of the model that returns the
  exception as a value.
\<close>

subsection \<open>Python values\<close>

text \<open>
  A Python float is an IEEE double. \<open>Fin q\<close> is the finite double whose exact value is
  the rational \<open>q\<close> (with \<open>Fin 0\<close> for +0.0); the other constructors are -0.0, the two
  infinities and NaN. Two floats print the same text under \<open>str\<close> exactly when they are
  the same constructor application.
\<close>

datatype pyfloat = Fin rat | NegZero | PosInf | NegInf | NaN

text \<open>
  The result of \<open>json.loads\<close>. An object is an association list in insertion order, as
  a Python dict iterates; its keys are distinct (the parser keeps one entry per key).
\<close>

datatype json =
    JNull
  | JBool bool
  | JInt int
  | JFloat pyfloat
  | JStr string
  | JArr "json list"
  | JObj "(string \<times> json) list"

datatype error =
    KeyError
  | TypeError
  | AttributeError
  | IndexError
  | RecursionError
  | OSError
  | JSONDecodeError

text \<open>Sequencing of computations that may raise.\<close>

definition ebind :: "error + 'a \<Rightarrow> ('a \<Rightarrow> error + 'b) \<Rightarrow> error + 'b" where
  "ebind m f = (case m of Inl e \<Rightarrow> Inl e | Inr x \<Rightarrow> f x)"

subsection \<open>Python's operators on these values\<close>

fun is_substring :: "string \<Rightarrow> string \<Rightarrow> bool" where
  "is_substring k [] = (k = [])"
| "is_substring k (c # cs) = (take (length k) (c # cs) = k \<or> is_substring k cs)"

text \<open>\<open>k in x\<close> for a string \<open>k\<close>: key membership in a dict, element membership in a
  list, substring test in a string, TypeError on anything else.\<close>

definition py_contains :: "string \<Rightarrow> json \<Rightarrow> error + bool" where
  "py_contains k x =
     (case x of
        JObj kvs \<Rightarrow> Inr (map_of kvs k \<noteq> None)
      | JArr xs \<Rightarrow> Inr (JStr k \<in> set xs)
      | JStr s \<Rightarrow> Inr (is_substring k s)
      | _ \<Rightarrow> Inl TypeError)"

text \<open>\<open>x[k]\<close> for a string \<open>k\<close>: KeyError on a dict without the key, TypeError on
  every value that is not a dict (lists and strings take integer indices only).\<close>

definition py_getitem :: "json \<Rightarrow> string \<Rightarrow> error + json" where
  "py_getitem x k =
     (case x of
        JObj kvs \<Rightarrow> (case map_of kvs k of None \<Rightarrow> Inl KeyError | Some v \<Rightarrow> Inr v)
      | _ \<Rightarrow> Inl TypeError)"

text \<open>\<open>x.get(k, d)\<close> and \<open>x.items()\<close>: methods of dict only.\<close>

definition py_get :: "json \<Rightarrow> string \<Rightarrow> json \<Rightarrow> error + json" where
  "py_get x k d =
     (case x of
        JObj kvs \<Rightarrow> Inr (case map_of kvs k of None \<Rightarrow> d | Some v \<Rightarrow> v)
      | _ \<Rightarrow> Inl AttributeError)"

definition py_items :: "json \<Rightarrow> error + (string \<times> json) list" where
  "py_items x = (case x of JObj kvs \<Rightarrow> Inr kvs | _ \<Rightarrow> Inl AttributeError)"

text \<open>Truth value of a condition, as \<open>if x:\<close> takes it.\<close>

definition truthy :: "json \<Rightarrow> bool" where
  "truthy x =
     (case x of
        JNull \<Rightarrow> False
      | JBool b \<Rightarrow> b
      | JInt n \<Rightarrow> n \<noteq> 0
      | JFloat f \<Rightarrow> f \<noteq> Fin 0 \<and> f \<noteq> NegZero
      | JStr s \<Rightarrow> s \<noteq> []
      | JArr xs \<Rightarrow> xs \<noteq> []
      | JObj kvs \<Rightarrow> kvs \<noteq> [])"

text \<open>
  \<open>==\<close> on raw values. Booleans, ints and floats compare by exact numeric value
  (\<open>True == 1\<close>, \<open>10 == 10.0\<close>, \<open>-0.0 == 0\<close>), NaN equals nothing, strings equal strings
  only, lists compare element by element and dicts entry by entry whatever their order.
  The values compared are parsed from different documents, so none of them is the same
  object as another.
\<close>

datatype numval = Exact rat | Infinite bool | NotANumber

definition numval_of_float :: "pyfloat \<Rightarrow> numval" where
  "numval_of_float f =
     (case f of
        Fin q \<Rightarrow> Exact q
      | NegZero \<Rightarrow> Exact 0
      | PosInf \<Rightarrow> Infinite True
      | NegInf \<Rightarrow> Infinite False
      | NaN \<Rightarrow> NotANumber)"

definition numval :: "json \<Rightarrow> numval option" where
  "numval x =
     (case x of
        JBool b \<Rightarrow> Some (Exact (if b then 1 else 0))
      | JInt n \<Rightarrow> Some (Exact (of_int n))
      | JFloat f \<Rightarrow> Some (numval_of_float f)
      | _ \<Rightarrow> None)"

definition num_eq :: "numval \<Rightarrow> numval option \<Rightarrow> bool" where
  "num_eq a b = (a \<noteq> NotANumber \<and> b = Some a)"

fun py_eq :: "json \<Rightarrow> json \<Rightarrow> bool"
  and py_eq_list :: "json list \<Rightarrow> json list \<Rightarrow> bool"
  and py_eq_items :: "(string \<times> json) list \<Rightarrow> (string \<times> json) list \<Rightarrow> bool"
where
  "py_eq JNull b = (b = JNull)"
| "py_eq (JBool x) b = num_eq (Exact (if x then 1 else 0)) (numval b)"
| "py_eq (JInt n) b = num_eq (Exact (of_int n)) (numval b)"
| "py_eq (JFloat f) b = num_eq (numval_of_float f) (numval b)"
| "py_eq (JStr s) b = (b = JStr s)"
| "py_eq (JArr xs) b = (case b of JArr ys \<Rightarrow> py_eq_list xs ys | _ \<Rightarrow> False)"
| "py_eq (JObj kvs) b =
     (case b of JObj kws \<Rightarrow> length kvs = length kws \<and> py_eq_items kvs kws | _ \<Rightarrow> False)"
| "py_eq_list [] ys = (ys = [])"
| "py_eq_list (x # xs) ys =
     (case ys of [] \<Rightarrow> False | y # ys' \<Rightarrow> py_eq x y \<and> py_eq_list xs ys')"
| "py_eq_items [] kws = True"
| "py_eq_items ((k, v) # r) kws =
     (case map_of kws k of None \<Rightarrow> False | Some w \<Rightarrow> py_eq v w \<and> py_eq_items r kws)"

subsection \<open>float() and the normalised comparison\<close>

text \<open>\<open>int.bit_length\<close>, and \<open>float(n)\<close> for an int: the nearest double, ties to even,
  OverflowError (here \<open>None\<close>) when that would be 2^1024 or more, that is, when it
  has more than 1024 bits.\<close>

fun bit_length :: "nat \<Rightarrow> nat" where
  "bit_length n = (if n = 0 then 0 else Suc (bit_length (n div 2)))"

declare bit_length.simps [simp del]

definition float_of_int :: "int \<Rightarrow> pyfloat option" where
  "float_of_int n =
     (let a = nat \<bar>n\<bar>;
          e = bit_length a - 53;
          q = a div 2 ^ e;
          r = a mod 2 ^ e;
          m = (if 2 * r > 2 ^ e \<or> (2 * r = 2 ^ e \<and> odd q) then q + 1 else q);
          v = m * 2 ^ e
      in if bit_length v > 1024 then None
         else Some (Fin (of_int (sgn n) * of_nat v)))"

text \<open>
  \<open>float(x)\<close>, with \<open>None\<close> for every exception (the source catches them all). Parsing
  a string is the interpreter's business: \<open>fos\<close> stands for \<open>float\<close> on strings and is a
  parameter of everything below.
\<close>

definition py_float :: "(string \<Rightarrow> pyfloat option) \<Rightarrow> json \<Rightarrow> pyfloat option" where
  "py_float fos x =
     (case x of
        JInt n \<Rightarrow> float_of_int n
      | JFloat f \<Rightarrow> Some f
      | JBool b \<Rightarrow> Some (Fin (if b then 1 else 0))
      | JStr s \<Rightarrow> fos s
      | _ \<Rightarrow> None)"

text \<open>
  The two sides of the comparison after lines 98-109: either the text \<open>str(float(x))\<close>,
  kept as the float it prints, or the raw value. A printed float can equal a raw value
  only if that value is the same text, and such a string would not have failed to
  parse; so a printed float and a raw value are never equal.
\<close>

datatype norm = Printed pyfloat | Raw json

definition normalise :: "(string \<Rightarrow> pyfloat option) \<Rightarrow> json \<Rightarrow> norm" where
  "normalise fos x = (case py_float fos x of Some f \<Rightarrow> Printed f | None \<Rightarrow> Raw x)"

fun norm_eq :: "norm \<Rightarrow> norm \<Rightarrow> bool" where
  "norm_eq (Printed a) (Printed b) = (a = b)"
| "norm_eq (Raw a) (Raw b) = py_eq a b"
| "norm_eq _ _ = False"

subsection \<open>The document store\<close>

text \<open>
  \<open>self._definitions\<close>: a dict from document name to parsed document, in insertion
  order (\<open>checkRedefineOverride\<close> takes its first key). Assigning to a key that is
  present keeps the key's position; a new key goes to the end.
\<close>

type_synonym store = "(string \<times> json) list"

fun dict_set :: "(string \<times> 'v) list \<Rightarrow> string \<Rightarrow> 'v \<Rightarrow> (string \<times> 'v) list" where
  "dict_set [] k v = [(k, v)]"
| "dict_set ((k', v') # r) k v =
     (if k' = k then (k, v) # r else (k', v') # dict_set r k v)"

text \<open>\<open>self._definitions[x]\<close>: the key may be any value the resolver was handed. Lists
  and dicts are unhashable; any other value that is not a string is a key the store
  does not have.\<close>

definition store_get :: "store \<Rightarrow> json \<Rightarrow> error + json" where
  "store_get defs x =
     (case x of
        JStr s \<Rightarrow> (case map_of defs s of None \<Rightarrow> Inl KeyError | Some d \<Rightarrow> Inr d)
      | JArr _ \<Rightarrow> Inl TypeError
      | JObj _ \<Rightarrow> Inl TypeError
      | _ \<Rightarrow> Inl KeyError)"

definition base_def :: "store \<Rightarrow> string" where
  "base_def defs =
     (if map_of defs ''fdmextruder'' \<noteq> None then ''fdmextruder'' else ''fdmprinter'')"

subsection \<open>Flattening the base document's settings (\_getSetting, \_loadBasePrinterSettings)\<close>

text \<open>
  \<open>getSetting\<close> is \<open>_getSetting\<close>; \<open>getSettings\<close> is the loop
  \<open>for childname, child in d.items(): self._getSetting(childname, child, settings)\<close>,
  which the source runs over a node's children (line 126) and over the top of the
  tree (line 120). \<open>settings |= {name: setting}\<close> is \<open>dict_set\<close>.
\<close>

function getSetting :: "string \<Rightarrow> json \<Rightarrow> (string \<times> json) list \<Rightarrow> error + (string \<times> json) list"
  and getSettings :: "(string \<times> json) list \<Rightarrow> (string \<times> json) list \<Rightarrow> error + (string \<times> json) list"
where
  "getSetting name setting settings =
     (case py_contains ''children'' setting of
        Inl e \<Rightarrow> Inl e
      | Inr has_children \<Rightarrow>
          if has_children then
            (case py_getitem setting ''children'' of
               Inl e \<Rightarrow> Inl e
             | Inr children \<Rightarrow>
                 (case py_items children of
                    Inl e \<Rightarrow> Inl e
                  | Inr kids \<Rightarrow>
                      (case getSettings kids settings of
                         Inl e \<Rightarrow> Inl e
                       | Inr settings' \<Rightarrow> Inr (dict_set settings' name setting))))
          else Inr (dict_set settings name setting))"
| "getSettings [] settings = Inr settings"
| "getSettings ((childname, child) # rest) settings =
     (case getSetting childname child settings of
        Inl e \<Rightarrow> Inl e
      | Inr settings' \<Rightarrow> getSettings rest settings')"
  by pat_completeness auto
termination
proof (relation "measure (\<lambda>x. case x of
          Inl (name, setting, settings) \<Rightarrow> size setting
        | Inr (kids, settings) \<Rightarrow> size_list (size_prod (\<lambda>_. 0) size) kids)")
  show "wf (measure (\<lambda>x. case x of
          Inl (name, setting, settings) \<Rightarrow> size setting
        | Inr (kids, settings) \<Rightarrow> size_list (size_prod (\<lambda>_. 0) size) kids))"
    by simp
next
  fix name :: string and setting settings x2 children kids
  assume get: "py_getitem setting ''children'' = Inr children"
    and items: "py_items children = Inr kids"
  have below: "map_of kvs k = Some v \<Longrightarrow> size v < Suc (size_list (size_prod (\<lambda>_. 0) size) kvs)"
    for kvs :: "(string \<times> json) list" and k v
    by (induction kvs) (auto split: if_splits)
  from get obtain kvs where "setting = JObj kvs" "map_of kvs ''children'' = Some children"
    by (cases setting) (auto simp: py_getitem_def split: option.splits)
  with below [of kvs "''children''" children] have "size children < size setting"
    by simp
  moreover from items have "size_list (size_prod (\<lambda>_. 0) size) kids < size children"
    by (cases children) (auto simp: py_items_def)
  ultimately have "size_list (size_prod (\<lambda>_. 0) size) kids < size setting"
    by simp
  then show "(Inr (kids, settings), Inl (name, setting, settings))
        \<in> measure (\<lambda>x. case x of
          Inl (name, setting, settings) \<Rightarrow> size setting
        | Inr (kids, settings) \<Rightarrow> size_list (size_prod (\<lambda>_. 0) size) kids)"
    by simp
qed auto

declare getSetting.simps [simp del]

definition loadBasePrinterSettings :: "store \<Rightarrow> error + store" where
  "loadBasePrinterSettings defs =
     ebind (store_get defs (JStr (base_def defs))) (\<lambda>base.
     ebind (py_getitem base ''settings'') (\<lambda>tree.
     ebind (py_items tree) (\<lambda>top.
     ebind (getSettings top []) (\<lambda>settings.
       Inr (dict_set defs (base_def defs) (JObj [(''overrides'', JObj settings)]))))))"

subsection \<open>Paths and files\<close>

text \<open>
  A \<open>pathlib\<close> path in the POSIX flavour: whether it is anchored at the root, and its
  components. \<open>stem\<close> follows pathlib's rule: the final component up to its last dot,
  unless that dot is the first or the last character.
\<close>

datatype path = Path bool "string list"

fun split_slash :: "string \<Rightarrow> string \<Rightarrow> string list" where
  "split_slash cur [] = [rev cur]"
| "split_slash cur (c # cs) =
     (if c = CHR ''/'' then rev cur # split_slash [] cs else split_slash (c # cur) cs)"

definition path_of_string :: "string \<Rightarrow> path" where
  "path_of_string s =
     Path (take 1 s = ''/'') (filter (\<lambda>c. c \<noteq> [] \<and> c \<noteq> ''.'') (split_slash [] s))"

fun joinpath :: "path \<Rightarrow> string list \<Rightarrow> path" where
  "joinpath p [] = p"
| "joinpath (Path a ps) (seg # segs) =
     (case path_of_string seg of
        Path b qs \<Rightarrow> joinpath (if b then Path True qs else Path a (ps @ qs)) segs)"

definition parent_of :: "path \<Rightarrow> path" where
  "parent_of p = (case p of Path a ps \<Rightarrow> Path a (butlast ps))"

definition name_of :: "path \<Rightarrow> string" where
  "name_of p = (case p of Path a ps \<Rightarrow> (if ps = [] then [] else last ps))"

fun rfind_dot :: "string \<Rightarrow> nat option" where
  "rfind_dot [] = None"
| "rfind_dot (c # cs) =
     (case rfind_dot cs of
        Some i \<Rightarrow> Some (Suc i)
      | None \<Rightarrow> (if c = CHR ''.'' then Some 0 else None))"

definition stem :: "path \<Rightarrow> string" where
  "stem p =
     (let name = name_of p
      in case rfind_dot name of
           None \<Rightarrow> name
         | Some i \<Rightarrow> (if 0 < i \<and> Suc i < length name then take i name else name))"

text \<open>\<open>Path(definition_file.stem).stem\<close>, the name a file is stored under.\<close>

definition derived_name :: "path \<Rightarrow> string" where
  "derived_name definition_file = stem (path_of_string (stem definition_file))"

text \<open>
  What the file system holds at a path: nothing, something that cannot be read as
  text, or a text together with what \<open>json.loads\<close> makes of it.
\<close>

datatype fsentry = Unreadable error | File string "error + json"

type_synonym filesystem = "path \<Rightarrow> fsentry option"

definition read_text :: "filesystem \<Rightarrow> path \<Rightarrow> error + string" where
  "read_text fs p =
     (case fs p of
        None \<Rightarrow> Inl OSError
      | Some (Unreadable e) \<Rightarrow> Inl e
      | Some (File t j) \<Rightarrow> Inr t)"

definition read_json :: "filesystem \<Rightarrow> path \<Rightarrow> error + json" where
  "read_json fs p =
     (case fs p of
        None \<Rightarrow> Inl OSError
      | Some (Unreadable e) \<Rightarrow> Inl e
      | Some (File t j) \<Rightarrow> j)"

subsection \<open>Loading a document and its ancestors (\_loadDefinitionFiles)\<close>

text \<open>
  \<open>f"{x}.def.json"\<close> formats \<open>x\<close> with \<open>str\<close>, which leaves a string as it is; on any
  other value it is the interpreter's \<open>str\<close>, the parameter \<open>str_of\<close>.
\<close>

definition py_format :: "(json \<Rightarrow> string) \<Rightarrow> json \<Rightarrow> string" where
  "py_format str_of x = (case x of JStr s \<Rightarrow> s | _ \<Rightarrow> str_of x)"

text \<open>Lines 76-79: the file the parent definition is looked for in.\<close>

definition parent_file_of :: "(json \<Rightarrow> string) \<Rightarrow> path \<Rightarrow> json \<Rightarrow> path" where
  "parent_file_of str_of definition_file inherits =
     (if inherits = JStr ''fdmextruder'' \<or> inherits = JStr ''fdmprinter''
      then joinpath (parent_of (parent_of definition_file))
             [''definitions'', py_format str_of inherits @ ''.def.json'']
      else joinpath (parent_of definition_file) [py_format str_of inherits @ ''.def.json''])"

text \<open>
  The body of \<open>_loadDefinitionFiles\<close> up to its recursive call: the store it leaves,
  and the parent file it goes on to load, if any.
\<close>

definition load_body ::
  "(json \<Rightarrow> string) \<Rightarrow> filesystem \<Rightarrow> path \<Rightarrow> store \<Rightarrow> error + (store \<times> path option)" where
  "load_body str_of fs definition_file defs =
     (let definition_name = derived_name definition_file
      in if fs definition_file = None \<or> map_of defs definition_name \<noteq> None
         then Inr (defs, None)
         else
           ebind (read_json fs definition_file) (\<lambda>doc.
           let defs' = dict_set defs definition_name doc
           in ebind (py_contains ''inherits'' doc) (\<lambda>has_inherits.
              if has_inherits then
                ebind (py_getitem doc ''inherits'') (\<lambda>inherits.
                  Inr (defs', Some (parent_file_of str_of definition_file inherits)))
              else Inr (defs', None))))"

text \<open>
  The recursion. \<open>depth\<close> is the number of nested calls the interpreter's recursion
  limit still allows; where it is used up, the call raises RecursionError.
\<close>

fun loadDefinitionFiles ::
  "(json \<Rightarrow> string) \<Rightarrow> filesystem \<Rightarrow> nat \<Rightarrow> path \<Rightarrow> store \<Rightarrow> error + store" where
  "loadDefinitionFiles str_of fs depth definition_file defs =
     (case load_body str_of fs definition_file defs of
        Inl e \<Rightarrow> Inl e
      | Inr (defs', None) \<Rightarrow> Inr defs'
      | Inr (defs', Some parent_file) \<Rightarrow>
          (case depth of
             0 \<Rightarrow> Inl RecursionError
           | Suc d \<Rightarrow> loadDefinitionFiles str_of fs d parent_file defs'))"

declare loadDefinitionFiles.simps [simp del]

subsection \<open>The override resolver (\_isDefinedInParent)\<close>

text \<open>The tuple the resolver returns: \<open>(True, child_key, child_value, parent)\<close> or
  \<open>(False, None, None, None)\<close>.\<close>

datatype resolution = Redundant string json json | NotRedundant

text \<open>Lines 87-90: whether the flattened base document types the key as a number.\<close>

definition is_number_of :: "store \<Rightarrow> string \<Rightarrow> error + bool" where
  "is_number_of defs key =
     ebind (store_get defs (JStr (base_def defs))) (\<lambda>base.
     ebind (py_getitem base ''overrides'') (\<lambda>flat.
     ebind (py_contains key flat) (\<lambda>present.
       if \<not> present then Inr False
       else
         ebind (py_getitem flat key) (\<lambda>entry.
         ebind (py_getitem entry ''type'') (\<lambda>t.
           Inr (t = JStr ''float'' \<or> t = JStr ''int''))))))"

text \<open>Lines 93-96: the parent's values a proposed field is compared with.\<close>

definition check_values :: "string \<Rightarrow> json \<Rightarrow> error + json list" where
  "check_values child_key entry =
     (if child_key = ''default_value'' \<or> child_key = ''value'' then
        ebind (py_get entry ''default_value'' JNull) (\<lambda>d.
        ebind (py_get entry ''value'' JNull) (\<lambda>v.
          Inr (filter (\<lambda>cv. cv \<noteq> JNull) [d, v])))
      else
        ebind (py_get entry child_key JNull) (\<lambda>c. Inr [c]))"

text \<open>Lines 98-110: one comparison, and the loop over the candidates, which is true
  when its \<open>return True, ...\<close> is reached.\<close>

definition same_value ::
  "(string \<Rightarrow> pyfloat option) \<Rightarrow> bool \<Rightarrow> string \<Rightarrow> json \<Rightarrow> json \<Rightarrow> bool" where
  "same_value fos is_number child_key child_value check_value =
     (if is_number \<and> (child_key = ''default_value'' \<or> child_key = ''value'')
      then norm_eq (normalise fos child_value) (normalise fos check_value)
      else norm_eq (Raw child_value) (Raw check_value))"

fun first_match ::
  "(string \<Rightarrow> pyfloat option) \<Rightarrow> bool \<Rightarrow> string \<Rightarrow> json \<Rightarrow> json list \<Rightarrow> bool" where
  "first_match fos is_number child_key child_value [] = False"
| "first_match fos is_number child_key child_value (check_value # rest) =
     (same_value fos is_number child_key child_value check_value
      \<or> first_match fos is_number child_key child_value rest)"

text \<open>
  Lines 91-114, the loop over the proposed fields. It ends by returning a match, by
  handing \<open>parent["inherits"]\<close> to a recursive call, or by running out of fields.
\<close>

datatype scan = Matched string json | Ascend json | Exhausted

fun scan_fields ::
  "(string \<Rightarrow> pyfloat option) \<Rightarrow> bool \<Rightarrow> string \<Rightarrow> json \<Rightarrow> (string \<times> json) list \<Rightarrow> error + scan" where
  "scan_fields fos is_number key parent [] = Inr Exhausted"
| "scan_fields fos is_number key parent ((child_key, child_value) # rest) =
     (case py_contains key parent of
        Inl e \<Rightarrow> Inl e
      | Inr key_in_parent \<Rightarrow>
          if key_in_parent then
            (case ebind (py_getitem parent key) (check_values child_key) of
               Inl e \<Rightarrow> Inl e
             | Inr candidates \<Rightarrow>
                 if first_match fos is_number child_key child_value candidates
                 then Inr (Matched child_key child_value)
                 else
                   (case py_contains ''inherits'' parent of
                      Inl e \<Rightarrow> Inl e
                    | Inr has_inherits \<Rightarrow>
                        if has_inherits
                        then (case py_getitem parent ''inherits'' of
                                Inl e \<Rightarrow> Inl e
                              | Inr up \<Rightarrow> Inr (Ascend up))
                        else scan_fields fos is_number key parent rest))
          else scan_fields fos is_number key parent rest)"

text \<open>The body of \<open>_isDefinedInParent\<close> up to its recursive calls (lines 84 and 114):
  it returns, or names the ancestor the call goes on with.\<close>

datatype step = Return resolution | Recurse json

definition resolve_body ::
  "(string \<Rightarrow> pyfloat option) \<Rightarrow> store \<Rightarrow> string \<Rightarrow> json \<Rightarrow> json \<Rightarrow> error + step" where
  "resolve_body fos defs key value_dict inherits_from =
     ebind (store_get defs inherits_from) (\<lambda>ancestor.
     ebind (py_contains ''overrides'' ancestor) (\<lambda>has_overrides.
       if \<not> has_overrides then
         ebind (py_getitem ancestor ''inherits'') (\<lambda>up. Inr (Recurse up))
       else
         ebind (py_getitem ancestor ''overrides'') (\<lambda>parent.
         ebind (is_number_of defs key) (\<lambda>is_number.
         ebind (py_items value_dict) (\<lambda>fields.
         ebind (scan_fields fos is_number key parent fields) (\<lambda>r.
           Inr (case r of
                  Matched child_key child_value \<Rightarrow>
                    Return (Redundant child_key child_value parent)
                | Ascend up \<Rightarrow> Recurse up
                | Exhausted \<Rightarrow> Return NotRedundant)))))))"

fun isDefinedInParent ::
  "(string \<Rightarrow> pyfloat option) \<Rightarrow> store \<Rightarrow> nat \<Rightarrow> string \<Rightarrow> json \<Rightarrow> json \<Rightarrow> error + resolution" where
  "isDefinedInParent fos defs depth key value_dict inherits_from =
     (case resolve_body fos defs key value_dict inherits_from of
        Inl e \<Rightarrow> Inl e
      | Inr (Return r) \<Rightarrow> Inr r
      | Inr (Recurse up) \<Rightarrow>
          (case depth of
             0 \<Rightarrow> Inl RecursionError
           | Suc d \<Rightarrow> isDefinedInParent fos defs d key value_dict up))"

declare isDefinedInParent.simps [simp del]

subsection \<open>Locating an override in the source text\<close>

text \<open>
  The search \<open>re.compile(r'.*(\"' + key + r'\"[\s\:\S]*?)\{[\s\S]*?\},?').search(content)\<close>,
  for a key without regular-expression metacharacters (setting keys are identifiers),
  on a text whose characters are below 256. Read by the backtracking matcher: from the
  leftmost start that admits a match, the greedy \<open>.*\<close> runs to the end of the line and
  gives characters back until the quoted key follows; the two lazy classes, which
  accept every character, stop at the first opening brace after the key and at the
  first closing brace after that; a comma right behind it is taken.
\<close>

definition dquote :: char where
  "dquote = CHR 0x22"

definition newline :: char where
  "newline = CHR 0x0A"

fun find_char :: "char \<Rightarrow> string \<Rightarrow> nat option" where
  "find_char c [] = None"
| "find_char c (x # xs) =
     (if x = c then Some 0 else map_option Suc (find_char c xs))"

text \<open>The pattern behind \<open>.*\<close>, matched at the head of \<open>s\<close>: where group 1 ends and
  where the match ends.\<close>

definition match_rest :: "string \<Rightarrow> string \<Rightarrow> (nat \<times> nat) option" where
  "match_rest q s =
     (if take (length q) s = q then
        (case find_char (CHR ''{'') (drop (length q) s) of
           None \<Rightarrow> None
         | Some a \<Rightarrow>
             (case find_char (CHR ''}'') (drop (length q + a + 1) s) of
                None \<Rightarrow> None
              | Some b \<Rightarrow>
                  (let e = length q + a + 1 + b + 1
                   in Some (length q + a,
                            if take 1 (drop e s) = '','' then e + 1 else e))))
      else None)"

text \<open>The greedy \<open>.*\<close> giving back: it tries to skip \<open>d\<close> characters, then \<open>d - 1\<close>,
  down to none. The result is where group 1 starts, where it ends and where the match
  ends.\<close>

fun match_back :: "string \<Rightarrow> string \<Rightarrow> nat \<Rightarrow> (nat \<times> nat \<times> nat) option" where
  "match_back q s 0 =
     (case match_rest q s of None \<Rightarrow> None | Some (g, e) \<Rightarrow> Some (0, g, e))"
| "match_back q s (Suc d) =
     (case match_rest q (drop (Suc d) s) of
        None \<Rightarrow> match_back q s d
      | Some (g, e) \<Rightarrow> Some (Suc d, Suc d + g, Suc d + e))"

definition match_here :: "string \<Rightarrow> string \<Rightarrow> (nat \<times> nat \<times> nat) option" where
  "match_here q s = match_back q s (length (takeWhile (\<lambda>c. c \<noteq> newline) s))"

text \<open>A match object: \<open>span(0)\<close> and \<open>span(1)\<close>.\<close>

record rematch =
  m_start :: nat
  m_end :: nat
  g_start :: nat
  g_end :: nat

fun search_from :: "string \<Rightarrow> string \<Rightarrow> nat \<Rightarrow> rematch option" where
  "search_from q [] i =
     (case match_here q [] of
        None \<Rightarrow> None
      | Some (j, g, e) \<Rightarrow>
          Some \<lparr>m_start = i, m_end = i + e, g_start = i + j, g_end = i + g\<rparr>)"
| "search_from q (c # cs) i =
     (case match_here q (c # cs) of
        None \<Rightarrow> search_from q cs (Suc i)
      | Some (j, g, e) \<Rightarrow>
          Some \<lparr>m_start = i, m_end = i + e, g_start = i + j, g_end = i + g\<rparr>)"

definition quoted :: "string \<Rightarrow> string" where
  "quoted key = dquote # key @ [dquote]"

definition re_search :: "string \<Rightarrow> string \<Rightarrow> rematch option" where
  "re_search key content = search_from (quoted key) content 0"

text \<open>The matched text, \<open>found.group()\<close>.\<close>

definition group :: "string \<Rightarrow> rematch \<Rightarrow> string" where
  "group content found = take (m_end found - m_start found) (drop (m_start found) content)"

text \<open>\<open>str.splitlines\<close>: the line boundaries among the first 256 characters are line
  feed, carriage return (followed by a line feed or not), vertical tab, form feed,
  the three separators 0x1C-0x1E and next-line 0x85.\<close>

definition is_boundary :: "char \<Rightarrow> bool" where
  "is_boundary c =
     (c \<in> {CHR 0x0A, CHR 0x0D, CHR 0x0B, CHR 0x0C, CHR 0x1C, CHR 0x1D, CHR 0x1E, CHR 0x85})"

fun split_lines :: "string \<Rightarrow> string \<Rightarrow> string list" where
  "split_lines cur [] = (if cur = [] then [] else [rev cur])"
| "split_lines cur [c] =
     (if is_boundary c then [rev cur] else [rev (c # cur)])"
| "split_lines cur (c # d # cs) =
     (if c = CHR 0x0D \<and> d = CHR 0x0A then rev cur # split_lines [] cs
      else if is_boundary c then rev cur # split_lines [] (d # cs)
      else split_lines (c # cur) (d # cs))"

definition splitlines :: "string \<Rightarrow> string list" where
  "splitlines s = split_lines [] s"

subsection \<open>The redundancy rule (checkRedefineOverride, check)\<close>

text \<open>
  \<open>Replacement\<close> and \<open>Diagnostic\<close> with the keyword arguments the rule passes. A message
  is kept as the pieces of its f-string: literal text, or a value that \<open>str\<close> is
  applied to.
\<close>

record replacement =
  r_file :: path
  r_offset :: nat
  r_length :: nat
  replacement_text :: string

datatype fpart = Lit string | Str json

record diagnostic =
  d_file :: path
  diagnostic_name :: string
  message :: "fpart list"
  level :: string
  d_offset :: nat
  replacements :: "replacement list"

text \<open>The linter object: \<open>_file\<close>, \<open>_settings\<close>, \<open>_definitions\<close> and \<open>_content\<close>.\<close>

record linter =
  l_file :: path
  l_settings :: json
  l_definitions :: store
  l_content :: string

text \<open>Lines 46-62: the diagnostic for a redundant key, once the pattern is found.\<close>

definition make_diagnostic ::
  "linter \<Rightarrow> string \<Rightarrow> string \<Rightarrow> json \<Rightarrow> json \<Rightarrow> rematch \<Rightarrow> diagnostic" where
  "make_diagnostic self key child_key child_value inherits found =
     \<lparr>d_file = l_file self,
      diagnostic_name = ''diagnostic-definition-redundant-override'',
      message =
        [Lit ''Overriding '', Lit key, Lit '' with the same value ('', Lit child_key,
         Lit '': '', Str child_value, Lit '') as defined in parent definition: '',
         Str inherits],
      level = ''Warning'',
      d_offset = m_start found,
      replacements =
        (if length (splitlines (group (l_content self) found)) > 1 then []
         else [\<lparr>r_file = l_file self,
                r_offset = g_start found,
                r_length = length (group (l_content self) found),
                replacement_text = []\<rparr>])\<rparr>"

text \<open>
  A generator's run: what it yielded, and the exception that ended it, if one did.
  Lines 39-62, the loop over the overrides of the target document.
\<close>

fun redefine_loop ::
  "(string \<Rightarrow> pyfloat option) \<Rightarrow> nat \<Rightarrow> linter \<Rightarrow> json \<Rightarrow> (string \<times> json) list
   \<Rightarrow> diagnostic list \<times> error option" where
  "redefine_loop fos depth self definition [] = ([], None)"
| "redefine_loop fos depth self definition ((key, value_dict) # rest) =
     (case py_getitem definition ''inherits'' of
        Inl e \<Rightarrow> ([], Some e)
      | Inr inherits \<Rightarrow>
          (case isDefinedInParent fos (l_definitions self) depth key value_dict inherits of
             Inl e \<Rightarrow> ([], Some e)
           | Inr NotRedundant \<Rightarrow> redefine_loop fos depth self definition rest
           | Inr (Redundant child_key child_value parent) \<Rightarrow>
               (case re_search key (l_content self) of
                  None \<Rightarrow> ([], Some AttributeError)
                | Some found \<Rightarrow>
                    (case redefine_loop fos depth self definition rest of
                       (ds, e) \<Rightarrow>
                         (make_diagnostic self key child_key child_value inherits found # ds,
                          e)))))"

definition checkRedefineOverride ::
  "(string \<Rightarrow> pyfloat option) \<Rightarrow> nat \<Rightarrow> linter \<Rightarrow> diagnostic list \<times> error option" where
  "checkRedefineOverride fos depth self =
     (case l_definitions self of
        [] \<Rightarrow> ([], Some IndexError)
      | (definition_name, definition) # _ \<Rightarrow>
          (case py_contains ''overrides'' definition of
             Inl e \<Rightarrow> ([], Some e)
           | Inr has_overrides \<Rightarrow>
               if has_overrides \<and> definition_name \<noteq> ''fdmprinter''
                  \<and> definition_name \<noteq> ''fdmextruder''
               then
                 (case ebind (py_getitem definition ''overrides'') py_items of
                    Inl e \<Rightarrow> ([], Some e)
                  | Inr overrides \<Rightarrow> redefine_loop fos depth self definition overrides)
               else ([], None)))"

text \<open>\<open>check\<close> yields the diagnostics and then, by its bare \<open>yield\<close>, None.\<close>

datatype item = Diag diagnostic | PyNone

definition check ::
  "(string \<Rightarrow> pyfloat option) \<Rightarrow> nat \<Rightarrow> linter \<Rightarrow> item list \<times> error option" where
  "check fos depth self =
     (case py_getitem (l_settings self) ''checks'' of
        Inl e \<Rightarrow> ([], Some e)
      | Inr checks \<Rightarrow>
          (case py_get checks ''diagnostic-definition-redundant-override'' (JBool False) of
             Inl e \<Rightarrow> ([], Some e)
           | Inr enabled \<Rightarrow>
               if truthy enabled then
                 (case checkRedefineOverride fos depth self of
                    (ds, Some e) \<Rightarrow> (map Diag ds, Some e)
                  | (ds, None) \<Rightarrow> (map Diag ds @ [PyNone], None))
               else ([PyNone], None)))"

text \<open>The constructor: load the chain, read the text, flatten the base document.\<close>

definition Definition_init ::
  "(json \<Rightarrow> string) \<Rightarrow> filesystem \<Rightarrow> nat \<Rightarrow> path \<Rightarrow> json \<Rightarrow> error + linter" where
  "Definition_init str_of fs depth file settings =
     ebind (loadDefinitionFiles str_of fs depth file []) (\<lambda>defs.
     ebind (read_text fs file) (\<lambda>content.
     ebind (loadBasePrinterSettings defs) (\<lambda>defs'.
       Inr \<lparr>l_file = file, l_settings = settings, l_definitions = defs',
            l_content = content\<rparr>)))"

subsection \<open>The ancestors a resolution looks up\<close>

text \<open>
  The sequence of values that a call of the resolver uses as keys of the store, in the
  order of the lookups at line 83: the ancestor it starts from, then the ancestor of
  each recursive call.
\<close>

fun walk ::
  "(string \<Rightarrow> pyfloat option) \<Rightarrow> store \<Rightarrow> nat \<Rightarrow> string \<Rightarrow> json \<Rightarrow> json \<Rightarrow> json list" where
  "walk fos defs depth key value_dict inherits_from =
     inherits_from #
     (case resolve_body fos defs key value_dict inherits_from of
        Inr (Recurse up) \<Rightarrow>
          (case depth of 0 \<Rightarrow> [] | Suc d \<Rightarrow> walk fos defs d key value_dict up)
      | _ \<Rightarrow> [])"

declare walk.simps [simp del]

subsection \<open>Example documents\<close>

text \<open>
  A chain A, B, C under the base document fdmprinter, already flattened. A overrides
  speed with value 50; B declares no overrides; C declares speed with default value 50.
\<close>

definition file_A :: path where
  "file_A = Path False [''printers'', ''A.def.json'']"

definition file_B :: path where
  "file_B = Path False [''printers'', ''B.def.json'']"

definition speed_is :: "string \<Rightarrow> json \<Rightarrow> json" where
  "speed_is field v = JObj [(''speed'', JObj [(field, v)])]"

definition doc_A :: json where
  "doc_A = JObj [(''inherits'', JStr ''B''), (''overrides'', speed_is ''value'' (JInt 50))]"

definition doc_B :: json where
  "doc_B = JObj [(''inherits'', JStr ''C'')]"

definition doc_C :: json where
  "doc_C = JObj [(''inherits'', JStr ''fdmprinter''),
                 (''overrides'', speed_is ''default_value'' (JInt 50))]"

definition flat_base :: json where
  "flat_base =
     JObj [(''overrides'',
            JObj [(''speed'', JObj [(''type'', JStr ''float''), (''default_value'', JInt 60)]),
                  (''label'', JObj [(''type'', JStr ''str''), (''default_value'', JStr ''x'')])])]"

definition chain_store :: store where
  "chain_store = [(''A'', doc_A), (''B'', doc_B), (''C'', doc_C), (''fdmprinter'', flat_base)]"

text \<open>The text of A on one line:
  \<open>{"inherits": "B", "overrides": {"speed": {"value": 50}}}\<close>\<close>

definition text_A :: string where
  "text_A =
     ''{'' @ quoted ''inherits'' @ '': '' @ quoted ''B'' @ '', '' @ quoted ''overrides''
     @ '': {'' @ quoted ''speed'' @ '': {'' @ quoted ''value'' @ '': 50}}}''"

definition rule_settings :: "bool \<Rightarrow> json" where
  "rule_settings enabled =
     JObj [(''checks'',
            JObj [(''diagnostic-definition-redundant-override'', JBool enabled)])]"

definition chain_linter :: "bool \<Rightarrow> linter" where
  "chain_linter enabled =
     \<lparr>l_file = file_A, l_settings = rule_settings enabled,
      l_definitions = chain_store, l_content = text_A\<rparr>"

text \<open>The same target over a store that does not hold C. The constructor builds no
  such store; the resolver and the rule are functions of whatever store they are given.\<close>

definition broken_linter :: linter where
  "broken_linter =
     \<lparr>l_file = file_A, l_settings = rule_settings True,
      l_definitions = [(''A'', doc_A), (''B'', doc_B), (''fdmprinter'', flat_base)],
      l_content = text_A\<rparr>"

text \<open>The same chain when B declares overrides of its own, with another value for
  the key, and still inherits C.\<close>

definition doc_B_own :: json where
  "doc_B_own = JObj [(''inherits'', JStr ''C''), (''overrides'', speed_is ''value'' (JInt 40))]"

definition own_store :: store where
  "own_store = [(''A'', doc_A), (''B'', doc_B_own), (''C'', doc_C), (''fdmprinter'', flat_base)]"

text \<open>A parent P that bounds speed from below by the int 10, for a target that
  proposes the string "10" as the same bound.\<close>

definition bound_store :: store where
  "bound_store =
     [(''A'', JObj [(''inherits'', JStr ''P''),
                    (''overrides'', speed_is ''minimum_value'' (JStr ''10''))]),
      (''P'', JObj [(''inherits'', JStr ''fdmprinter''),
                    (''overrides'', speed_is ''minimum_value'' (JInt 10))]),
      (''fdmprinter'', flat_base)]"



text \<open>
  A reading of \<open>float\<close> on strings for the examples: a string of decimal digits is the
  float of the number it writes, as in Python; no example holds any other string where
  it would be parsed.
\<close>

fun digits_value :: "string \<Rightarrow> nat \<Rightarrow> nat option" where
  "digits_value [] acc = Some acc"
| "digits_value (c # cs) acc =
     (if 48 \<le> (of_char c :: nat) \<and> (of_char c :: nat) \<le> 57
      then digits_value cs (10 * acc + (of_char c - 48))
      else None)"

definition float_of_digits :: "string \<Rightarrow> pyfloat option" where
  "float_of_digits s =
     (if s = [] then None
      else case digits_value s 0 of None \<Rightarrow> None | Some n \<Rightarrow> float_of_int (int n))"

text \<open>The text of A with the key and its value on two lines:
  the lines are \<open>{\<close>, \<open>"inherits": "B",\<close>, \<open>"overrides": {\<close>, \<open>"speed":\<close>,
  \<open>{"value": 50}\<close>, \<open>}\<close> and \<open>}\<close>.\<close>

definition text_A_lines :: string where
  "text_A_lines =
     ''{'' @ [newline] @ quoted ''inherits'' @ '': '' @ quoted ''B'' @ '','' @ [newline]
     @ quoted ''overrides'' @ '': {'' @ [newline] @ quoted ''speed'' @ '':'' @ [newline]
     @ ''{'' @ quoted ''value'' @ '': 50}'' @ [newline] @ ''}'' @ [newline] @ ''}''"

definition lines_linter :: linter where
  "lines_linter = (chain_linter True)\<lparr>l_content := text_A_lines\<rparr>"



text \<open>A directory with the files of A and B; B inherits C, whose file is missing.\<close>

definition printers_fs :: filesystem where
  "printers_fs p =
     (if p = file_A then Some (File text_A (Inr doc_A))
      else if p = file_B then Some (File [] (Inr doc_B))
      else None)"

text \<open>The directory of the whole chain: A, B and C beside one another, and the base
  document, with its settings tree, in the directory of definitions.\<close>

definition raw_fdmprinter :: json where
  "raw_fdmprinter =
     JObj [(''settings'',
            JObj [(''speed'', JObj [(''type'', JStr ''float''), (''default_value'', JInt 60)]),
                  (''label'', JObj [(''type'', JStr ''str''), (''default_value'', JStr ''x'')])])]"

definition chain_fs :: filesystem where
  "chain_fs p =
     (if p = file_A then Some (File text_A (Inr doc_A))
      else if p = file_B then Some (File [] (Inr doc_B))
      else if p = Path False [''printers'', ''C.def.json''] then Some (File [] (Inr doc_C))
      else if p = Path False [''definitions'', ''fdmprinter.def.json'']
      then Some (File [] (Inr raw_fdmprinter))
      else None)"

text \<open>The same directory for any text of A and the document it parses to.\<close>

definition files_with :: "string \<Rightarrow> json \<Rightarrow> filesystem" where
  "files_with t a p =
     (if p = file_A then Some (File t (Inr a))
      else if p = file_B then Some (File [] (Inr doc_B))
      else if p = Path False [''printers'', ''C.def.json''] then Some (File [] (Inr doc_C))
      else if p = Path False [''definitions'', ''fdmprinter.def.json'']
      then Some (File [] (Inr raw_fdmprinter))
      else None)"

text \<open>
  A target that names its parent by the path ./B: the file of the parent is B.def.json
  beside it, and the text is
  \<open>{"inherits": "./B", "overrides": {"speed": {"value": 50}}}\<close>.
\<close>

definition doc_A_dot :: json where
  "doc_A_dot =
     JObj [(''inherits'', JStr ''./B''), (''overrides'', speed_is ''value'' (JInt 50))]"

definition text_A_dot :: string where
  "text_A_dot =
     ''{'' @ quoted ''inherits'' @ '': '' @ quoted ''./B'' @ '', '' @ quoted ''overrides''
     @ '': {'' @ quoted ''speed'' @ '': {'' @ quoted ''value'' @ '': 50}}}''"

definition dot_linter :: linter where
  "dot_linter =
     \<lparr>l_file = file_A, l_settings = rule_settings True,
      l_definitions =
        [(''A'', doc_A_dot), (''B'', doc_B), (''C'', doc_C), (''fdmprinter'', flat_base)],
      l_content = text_A_dot\<rparr>"

text \<open>A reading of \<open>str\<close> for the examples, where only strings are formatted.\<close>

definition str_None :: "json \<Rightarrow> string" where
  "str_None x = ''None''"

text \<open>A base document whose settings tree nests layer_height under resolution.\<close>

definition layer_height :: json where
  "layer_height = JObj [(''type'', JStr ''float''), (''default_value'', JFloat (Fin (1 / 10)))]"

definition resolution_node :: json where
  "resolution_node =
     JObj [(''type'', JStr ''category''), (''children'', JObj [(''layer_height'', layer_height)])]"

definition speed_node :: json where
  "speed_node = JObj [(''type'', JStr ''float''), (''default_value'', JInt 60)]"

definition raw_base_store :: store where
  "raw_base_store =
     [(''A'', doc_A),
      (''fdmprinter'',
       JObj [(''name'', JStr ''FDM Printer''),
             (''settings'', JObj [(''resolution'', resolution_node), (''speed'', speed_node)])])]"

subsection \<open>The resolver and the flattener in the words of their descriptions\<close>

text \<open>
  Numeric mode: the key is in the flattened base settings and its type there is float
  or int.
\<close>

definition numeric_mode :: "(string \<times> json) list \<Rightarrow> string \<Rightarrow> bool" where
  "numeric_mode flat key =
     (case map_of flat key of
        Some (JObj entry) \<Rightarrow>
          map_of entry ''type'' = Some (JStr ''float'')
          \<or> map_of entry ''type'' = Some (JStr ''int'')
      | _ \<Rightarrow> False)"

text \<open>
  The values a proposed field is compared with: for default_value and value, the
  parent's default_value and value, those that are present and not null; for any other
  field, the parent's field of the same name, null when the parent has none.
\<close>

definition candidates :: "string \<Rightarrow> (string \<times> json) list \<Rightarrow> json list" where
  "candidates field entry =
     (if field \<in> {''default_value'', ''value''}
      then filter (\<lambda>cv. cv \<noteq> JNull)
             (map (\<lambda>f. case map_of entry f of None \<Rightarrow> JNull | Some v \<Rightarrow> v)
                [''default_value'', ''value''])
      else [case map_of entry field of None \<Rightarrow> JNull | Some v \<Rightarrow> v])"

text \<open>
  The comparison of a proposed value with a candidate. In numeric mode, and for the
  fields default_value and value only, both sides go through \<open>float\<close>: two floats agree
  when they print the same, two values that both fail to parse are compared raw, and a
  float never agrees with a value that failed to parse. Everything else is compared
  raw.
\<close>

definition agrees ::
  "(string \<Rightarrow> pyfloat option) \<Rightarrow> bool \<Rightarrow> string \<Rightarrow> json \<Rightarrow> json \<Rightarrow> bool" where
  "agrees fos numeric field v cv =
     (if numeric \<and> field \<in> {''default_value'', ''value''} then
        (case (py_float fos v, py_float fos cv) of
           (Some a, Some b) \<Rightarrow> a = b
         | (None, None) \<Rightarrow> py_eq v cv
         | _ \<Rightarrow> False)
      else py_eq v cv)"

definition field_redundant ::
  "(string \<Rightarrow> pyfloat option) \<Rightarrow> bool \<Rightarrow> (string \<times> json) list \<Rightarrow> string \<times> json \<Rightarrow> bool" where
  "field_redundant fos numeric entry fv =
     list_ex (agrees fos numeric (fst fv) (snd fv)) (candidates (fst fv) entry)"

text \<open>
  The nodes of a settings tree, each after the nodes below it, and the trees the
  flattener accepts: every node is an object, and a children field is an object of
  such nodes.
\<close>

function postorder :: "string \<Rightarrow> json \<Rightarrow> (string \<times> json) list"
  and postorder_all :: "(string \<times> json) list \<Rightarrow> (string \<times> json) list"
where
  "postorder name setting =
     (case setting of
        JObj kvs \<Rightarrow>
          (case map_of kvs ''children'' of
             Some (JObj kids) \<Rightarrow> postorder_all kids
           | _ \<Rightarrow> [])
      | _ \<Rightarrow> [])
     @ [(name, setting)]"
| "postorder_all [] = []"
| "postorder_all ((name, setting) # rest) = postorder name setting @ postorder_all rest"
  by pat_completeness auto
termination
proof (relation "measure (\<lambda>x. case x of
          Inl (name, setting) \<Rightarrow> size setting
        | Inr kids \<Rightarrow> size_list (size_prod (\<lambda>_. 0) size) kids)")
  fix name :: string and setting kvs v kids
  assume "setting = JObj kvs" "map_of kvs ''children'' = Some v" "v = JObj kids"
  moreover have "map_of m k = Some w \<Longrightarrow> size w < Suc (size_list (size_prod (\<lambda>_. 0) size) m)"
    for m :: "(string \<times> json) list" and k w
    by (induction m) (auto split: if_splits)
  ultimately show "(Inr kids, Inl (name, setting))
        \<in> measure (\<lambda>x. case x of
          Inl (name, setting) \<Rightarrow> size setting
        | Inr kids \<Rightarrow> size_list (size_prod (\<lambda>_. 0) size) kids)"
    by fastforce
qed auto

declare postorder.simps [simp del]

function well_formed :: "json \<Rightarrow> bool"
  and all_well_formed :: "(string \<times> json) list \<Rightarrow> bool"
where
  "well_formed setting =
     (case setting of
        JObj kvs \<Rightarrow>
          (case map_of kvs ''children'' of
             None \<Rightarrow> True
           | Some (JObj kids) \<Rightarrow> all_well_formed kids
           | Some _ \<Rightarrow> False)
      | _ \<Rightarrow> False)"
| "all_well_formed [] = True"
| "all_well_formed ((name, setting) # rest) = (well_formed setting \<and> all_well_formed rest)"
  by pat_completeness auto
termination
proof (relation "measure (\<lambda>x. case x of
          Inl setting \<Rightarrow> size setting
        | Inr kids \<Rightarrow> size_list (size_prod (\<lambda>_. 0) size) kids)")
  fix setting kvs v kids
  assume "setting = JObj kvs" "map_of kvs ''children'' = Some v" "v = JObj kids"
  moreover have "map_of m k = Some w \<Longrightarrow> size w < Suc (size_list (size_prod (\<lambda>_. 0) size) m)"
    for m :: "(string \<times> json) list" and k w
    by (induction m) (auto split: if_splits)
  ultimately show "(Inr kids, Inl setting)
        \<in> measure (\<lambda>x. case x of
          Inl setting \<Rightarrow> size setting
        | Inr kids \<Rightarrow> size_list (size_prod (\<lambda>_. 0) size) kids)"
    by fastforce
qed auto

declare well_formed.simps [simp del]

section \<open>Properties\<close>

subsection \<open>Evaluation of the examples\<close>

lemma bit_length_le: "n < 2 ^ k \<Longrightarrow> bit_length n \<le> k"
proof (induction n arbitrary: k rule: bit_length.induct)
  case (1 n)
  show ?case
  proof (cases "n = 0")
    case True
    then show ?thesis by (simp add: bit_length.simps)
  next
    case False
    with "1.prems" obtain j where k: "k = Suc j" by (cases k) auto
    with "1.prems" have "n div 2 < 2 ^ j" by auto
    with "1.IH" [OF False] have "bit_length (n div 2) \<le> j" by blast
    with False k show ?thesis by (subst bit_length.simps) simp
  qed
qed

lemma float_of_small_int:
  assumes "\<bar>n\<bar> < 2 ^ 53"
  shows "float_of_int n = Some (Fin (of_int n))"
proof -
  let ?a = "nat \<bar>n\<bar>"
  have a: "?a < 2 ^ 53" using assms by (simp add: nat_less_iff)
  then have b: "bit_length ?a \<le> 53" by (rule bit_length_le)
  have "(2::nat) ^ 53 \<le> 2 ^ 1024" by (rule power_increasing) simp_all
  with a have "?a < 2 ^ 1024" by linarith
  then have c: "bit_length ?a \<le> 1024" by (rule bit_length_le)
  have s: "of_int (sgn n) * (of_nat ?a :: rat) = of_int n"
    by (cases "n < 0") (simp_all add: sgn_if)
  from b c s show ?thesis
    by (simp add: float_of_int_def Let_def del: of_nat_nat)
qed

lemma float_of_int_50: "float_of_int 50 = Some (Fin 50)"
  using float_of_small_int [of 50] by simp

lemma float_of_int_10: "float_of_int 10 = Some (Fin 10)"
  using float_of_small_int [of 10] by simp

lemma float_of_digits_10: "float_of_digits ''10'' = Some (Fin 10)"
  by (simp add: float_of_digits_def float_of_int_10)

lemmas py_ops = ebind_def py_contains_def py_getitem_def py_get_def py_items_def
  store_get_def base_def_def

lemmas resolver_defs = is_number_of_def check_values_def same_value_def normalise_def
  py_float_def resolve_body_def isDefinedInParent.simps

lemmas chain_docs = chain_store_def doc_A_def doc_B_def doc_C_def flat_base_def speed_is_def

lemmas regex_defs = re_search_def quoted_def dquote_def newline_def match_here_def
  match_rest_def

lemma search_text_A:
  "re_search ''speed'' text_A = Some \<lparr>m_start = 0, m_end = 54, g_start = 32, g_end = 41\<rparr>"
  by (simp add: regex_defs text_A_def)

lemma group_text_A:
  "group text_A \<lparr>m_start = 0, m_end = 54, g_start = 32, g_end = 41\<rparr> = take 54 text_A"
  by (simp add: group_def)

lemma splitlines_text_A: "length (splitlines (take 54 text_A)) = 1"
  by (simp add: splitlines_def text_A_def quoted_def dquote_def is_boundary_def)

lemma length_text_A: "length text_A = 56"
  by (simp add: text_A_def quoted_def)

subsection \<open>The resolver\<close>

lemma resolve_missing:
  "map_of defs name = None \<Longrightarrow>
   isDefinedInParent fos defs depth key value_dict (JStr name) = Inl KeyError"
  by (subst isDefinedInParent.simps) (simp add: resolve_body_def store_get_def ebind_def)

lemma walk_0: "walk fos defs 0 key value_dict start = [start]"
  by (subst walk.simps) (simp split: sum.splits step.splits)

lemma walk_Suc:
  "walk fos defs (Suc d) key value_dict start =
     start #
     (case resolve_body fos defs key value_dict start of
        Inr (Recurse up) \<Rightarrow> walk fos defs d key value_dict up
      | _ \<Rightarrow> [])"
  by (subst walk.simps) (simp split: sum.splits step.splits)

lemma walk_start: "start \<in> set (walk fos defs depth key value_dict start)"
  by (subst walk.simps) simp

lemma walk_missing:
  "JStr name \<in> set (walk fos defs depth key value_dict start) \<Longrightarrow>
   map_of defs name = None \<Longrightarrow>
   isDefinedInParent fos defs depth key value_dict start = Inl KeyError"
proof (induction depth arbitrary: start)
  case 0
  then have "start = JStr name" by (simp add: walk_0)
  with 0 show ?case by (simp add: resolve_missing)
next
  case (Suc d)
  show ?case
  proof (cases "start = JStr name")
    case True
    with Suc.prems show ?thesis by (simp add: resolve_missing)
  next
    case False
    with Suc.prems(1) obtain up where
      up: "resolve_body fos defs key value_dict start = Inr (Recurse up)"
      and mem: "JStr name \<in> set (walk fos defs d key value_dict up)"
      by (cases "resolve_body fos defs key value_dict start")
         (auto simp: walk_Suc split: step.splits)
    from Suc.IH [OF mem Suc.prems(2)] up show ?thesis
      by (subst isDefinedInParent.simps) simp
  qed
qed

subsection \<open>The loop of the rule\<close>

lemma redefine_loop_append:
  "redefine_loop fos depth self definition (pre @ rest) =
     (case redefine_loop fos depth self definition pre of
        (ds, Some e) \<Rightarrow> (ds, Some e)
      | (ds, None) \<Rightarrow>
          (case redefine_loop fos depth self definition rest of
             (ds', e) \<Rightarrow> (ds @ ds', e)))"
  by (induction pre)
     (auto split: sum.splits resolution.splits option.splits prod.splits)

subsection \<open>The examples, run\<close>

lemma resolve_chain:
  "isDefinedInParent fos chain_store 5 ''speed'' (JObj [(''value'', JInt 50)]) (JStr ''B'')
   = Inr (Redundant ''value'' (JInt 50) (speed_is ''default_value'' (JInt 50)))"
  by (simp add: py_ops resolver_defs chain_docs float_of_int_50)

lemma rule_chain:
  "checkRedefineOverride fos 5 (chain_linter enabled) =
     ([\<lparr>d_file = file_A,
        diagnostic_name = ''diagnostic-definition-redundant-override'',
        message =
          [Lit ''Overriding '', Lit ''speed'', Lit '' with the same value ('', Lit ''value'',
           Lit '': '', Str (JInt 50), Lit '') as defined in parent definition: '',
           Str (JStr ''B'')],
        level = ''Warning'',
        d_offset = 0,
        replacements =
          [\<lparr>r_file = file_A, r_offset = 32, r_length = 54,
            replacement_text = []\<rparr>]\<rparr>],
      None)"
proof -
  have ovs: "py_getitem doc_A ''overrides'' = Inr (JObj [(''speed'', JObj [(''value'', JInt 50)])])"
    and inh: "py_getitem doc_A ''inherits'' = Inr (JStr ''B'')"
    and has: "py_contains ''overrides'' doc_A = Inr True"
    by (simp_all add: py_ops doc_A_def speed_is_def)
  have target: "(case l_definitions (chain_linter enabled) of [] \<Rightarrow> a | (n, d) # _ \<Rightarrow> f n d)
      = f ''A'' doc_A" for a :: "diagnostic list \<times> error option" and f
    by (simp add: chain_linter_def chain_store_def)
  have content: "l_content (chain_linter enabled) = text_A"
    and lfile: "l_file (chain_linter enabled) = file_A"
    and store: "l_definitions (chain_linter enabled) = chain_store"
    by (simp_all add: chain_linter_def)
  show ?thesis
    unfolding checkRedefineOverride_def target
    by (simp add: has ovs inh py_items_def ebind_def store resolve_chain content
        search_text_A make_diagnostic_def lfile group_text_A splitlines_text_A length_text_A)
qed

lemma check_chain:
  "check fos 5 (chain_linter True) =
     ([Diag \<lparr>d_file = file_A,
        diagnostic_name = ''diagnostic-definition-redundant-override'',
        message =
          [Lit ''Overriding '', Lit ''speed'', Lit '' with the same value ('', Lit ''value'',
           Lit '': '', Str (JInt 50), Lit '') as defined in parent definition: '',
           Str (JStr ''B'')],
        level = ''Warning'',
        d_offset = 0,
        replacements =
          [\<lparr>r_file = file_A, r_offset = 32, r_length = 54,
            replacement_text = []\<rparr>]\<rparr>,
       PyNone],
      None)"
proof -
  have "l_settings (chain_linter True) = rule_settings True"
    by (simp add: chain_linter_def)
  then show ?thesis
    by (simp add: check_def rule_settings_def py_getitem_def py_get_def truthy_def rule_chain)
qed

subsection \<open>The constructor on the files of the examples\<close>

lemmas path_defs = derived_name_def stem_def name_of_def path_of_string_def parent_of_def
  parent_file_of_def py_format_def file_A_def file_B_def

lemma name_A: "derived_name file_A = ''A''"
  by (simp add: path_defs)

lemma name_B: "derived_name file_B = ''B''"
  by (simp add: path_defs)

lemma name_C: "derived_name (Path False [''printers'', ''C.def.json'']) = ''C''"
  by (simp add: path_defs)

lemma name_base: "derived_name (Path False [''definitions'', ''fdmprinter.def.json'']) = ''fdmprinter''"
  by (simp add: path_defs)

lemma parent_A: "parent_file_of str_None file_A (JStr ''B'') = file_B"
  by (simp add: path_defs)

lemma parent_A_dot: "parent_file_of str_None file_A (JStr ''./B'') = file_B"
  by (simp add: path_defs)

lemma parent_B:
  "parent_file_of str_None file_B (JStr ''C'') = Path False [''printers'', ''C.def.json'']"
  by (simp add: path_defs)

lemma parent_C:
  "parent_file_of str_None (Path False [''printers'', ''C.def.json'']) (JStr ''fdmprinter'')
     = Path False [''definitions'', ''fdmprinter.def.json'']"
  by (simp add: path_defs)

lemmas example_files = files_with_def file_A_def file_B_def read_json_def

lemma load_files_base:
  "loadDefinitionFiles str_None (files_with t a) 2
     (Path False [''definitions'', ''fdmprinter.def.json''])
     [(''A'', a), (''B'', doc_B), (''C'', doc_C)]
   = Inr [(''A'', a), (''B'', doc_B), (''C'', doc_C), (''fdmprinter'', raw_fdmprinter)]"
  by (subst loadDefinitionFiles.simps)
     (simp add: load_body_def name_base example_files ebind_def py_contains_def
        raw_fdmprinter_def)

lemma load_files_C:
  "loadDefinitionFiles str_None (files_with t a) 3 (Path False [''printers'', ''C.def.json''])
     [(''A'', a), (''B'', doc_B)]
   = Inr [(''A'', a), (''B'', doc_B), (''C'', doc_C), (''fdmprinter'', raw_fdmprinter)]"
proof -
  have "load_body str_None (files_with t a) (Path False [''printers'', ''C.def.json''])
      [(''A'', a), (''B'', doc_B)]
    = Inr ([(''A'', a), (''B'', doc_B), (''C'', doc_C)],
        Some (Path False [''definitions'', ''fdmprinter.def.json'']))"
    by (simp add: load_body_def name_C example_files ebind_def py_contains_def py_getitem_def
        doc_C_def parent_C [unfolded doc_C_def])
  then show ?thesis
    by (subst loadDefinitionFiles.simps) (simp add: load_files_base)
qed

lemma load_files_B:
  "loadDefinitionFiles str_None (files_with t a) 4 file_B [(''A'', a)]
   = Inr [(''A'', a), (''B'', doc_B), (''C'', doc_C), (''fdmprinter'', raw_fdmprinter)]"
proof -
  have "files_with t a file_B = Some (File [] (Inr doc_B))"
    by (simp add: example_files)
  then have "load_body str_None (files_with t a) file_B [(''A'', a)]
    = Inr ([(''A'', a), (''B'', doc_B)], Some (Path False [''printers'', ''C.def.json'']))"
    by (simp add: load_body_def name_B read_json_def ebind_def py_contains_def py_getitem_def
        doc_B_def parent_B [unfolded doc_B_def])
  then show ?thesis
    by (subst loadDefinitionFiles.simps) (simp add: load_files_C)
qed

lemma load_files_A:
  assumes "py_getitem a ''inherits'' = Inr inherits"
    and "parent_file_of str_None file_A inherits = file_B"
  shows "loadDefinitionFiles str_None (files_with t a) 5 file_A []
   = Inr [(''A'', a), (''B'', doc_B), (''C'', doc_C), (''fdmprinter'', raw_fdmprinter)]"
proof -
  from assms(1) have has: "py_contains ''inherits'' a = Inr True"
    by (cases a) (auto simp: py_getitem_def py_contains_def split: option.splits)
  have "files_with t a file_A = Some (File t (Inr a))"
    by (simp add: files_with_def)
  with has assms have "load_body str_None (files_with t a) file_A []
      = Inr ([(''A'', a)], Some file_B)"
    by (simp add: load_body_def name_A read_json_def ebind_def)
  then show ?thesis
    by (subst loadDefinitionFiles.simps) (simp add: load_files_B)
qed

lemma flatten_files:
  "loadBasePrinterSettings
     [(''A'', a), (''B'', doc_B), (''C'', doc_C), (''fdmprinter'', raw_fdmprinter)]
   = Inr [(''A'', a), (''B'', doc_B), (''C'', doc_C), (''fdmprinter'', flat_base)]"
  by (simp add: loadBasePrinterSettings_def base_def_def store_get_def py_getitem_def
      py_items_def ebind_def raw_fdmprinter_def getSetting.simps py_contains_def
      flat_base_def)

lemma init_files:
  assumes "py_getitem a ''inherits'' = Inr inherits"
    and "parent_file_of str_None file_A inherits = file_B"
  shows "Definition_init str_None (files_with t a) 5 file_A settings
     = Inr \<lparr>l_file = file_A, l_settings = settings,
            l_definitions =
              [(''A'', a), (''B'', doc_B), (''C'', doc_C), (''fdmprinter'', flat_base)],
            l_content = t\<rparr>"
proof -
  have "read_text (files_with t a) file_A = Inr t"
    by (simp add: read_text_def files_with_def)
  then show ?thesis
    by (simp add: Definition_init_def load_files_A [OF assms] flatten_files ebind_def)
qed

lemma inherits_A: "py_getitem doc_A ''inherits'' = Inr (JStr ''B'')"
  by (simp add: py_getitem_def doc_A_def)

lemma inherits_A_dot: "py_getitem doc_A_dot ''inherits'' = Inr (JStr ''./B'')"
  by (simp add: py_getitem_def doc_A_dot_def)

text \<open>The linters of the examples are those the constructor builds from these
  files.\<close>

lemma init_chain:
  "Definition_init str_None chain_fs 5 file_A (rule_settings enabled) = Inr (chain_linter enabled)"
proof -
  have "chain_fs = files_with text_A doc_A"
    by (rule ext) (simp add: chain_fs_def files_with_def)
  with init_files [OF inherits_A parent_A, of text_A "rule_settings enabled"] show ?thesis
    by (simp add: chain_linter_def chain_store_def)
qed



lemma init_dot:
  "Definition_init str_None (files_with text_A_dot doc_A_dot) 5 file_A (rule_settings True)
     = Inr dot_linter"
  using init_files [OF inherits_A_dot parent_A_dot, of text_A_dot "rule_settings True"]
  by (simp add: dot_linter_def)

text \<open>On the target that names its parent ./B, the resolver looks the name ./B up in a
  store that holds the parent under B.\<close>

lemma rule_dot: "checkRedefineOverride fos 5 dot_linter = ([], Some KeyError)"
proof -
  have ovs: "py_getitem doc_A_dot ''overrides''
      = Inr (JObj [(''speed'', JObj [(''value'', JInt 50)])])"
    and has: "py_contains ''overrides'' doc_A_dot = Inr True"
    by (simp_all add: py_ops doc_A_dot_def speed_is_def)
  have target: "(case l_definitions dot_linter of [] \<Rightarrow> a | (n, d) # _ \<Rightarrow> f n d)
      = f ''A'' doc_A_dot" for a :: "diagnostic list \<times> error option" and f
    by (simp add: dot_linter_def)
  have "map_of (l_definitions dot_linter) ''./B'' = None"
    by (simp add: dot_linter_def)
  then have r: "isDefinedInParent fos (l_definitions dot_linter) 5 ''speed''
      (JObj [(''value'', JInt 50)]) (JStr ''./B'') = Inl KeyError"
    by (rule resolve_missing)
  show ?thesis
    unfolding checkRedefineOverride_def target
    by (simp add: has ovs inherits_A_dot py_items_def ebind_def r)
qed

lemma check_dot: "check fos 5 dot_linter = ([], Some KeyError)"
proof -
  have "l_settings dot_linter = rule_settings True"
    by (simp add: dot_linter_def)
  then show ?thesis
    by (simp add: check_def rule_settings_def py_getitem_def py_get_def truthy_def rule_dot)
qed

subsection \<open>The rule when it is disabled\<close>

text \<open>
  C8. When the configuration flag checks.diagnostic-definition-redundant-override is
  false or absent, \<open>check\<close> produces no diagnostics, whatever the target document and
  its ancestors hold: it yields None and nothing else.
\<close>

theorem check_disabled:
  assumes "py_getitem (l_settings self) ''checks'' = Inr (JObj checks)"
    and "map_of checks ''diagnostic-definition-redundant-override'' = None
         \<or> map_of checks ''diagnostic-definition-redundant-override'' = Some (JBool False)"
  shows "check fos depth self = ([PyNone], None)"
  using assms by (auto simp: check_def py_get_def truthy_def)

text \<open>The chain of the examples, whose one override is redundant, with the flag
  false.\<close>

theorem check_disabled_witness:
  "py_getitem (l_settings (chain_linter False)) ''checks''
     = Inr (JObj [(''diagnostic-definition-redundant-override'', JBool False)])
   \<and> check float_of_digits 5 (chain_linter False) = ([PyNone], None)
   \<and> fst (checkRedefineOverride float_of_digits 5 (chain_linter False)) \<noteq> []"
proof -
  have s: "py_getitem (l_settings (chain_linter False)) ''checks''
     = Inr (JObj [(''diagnostic-definition-redundant-override'', JBool False)])"
    by (simp add: chain_linter_def rule_settings_def py_getitem_def)
  from check_disabled [OF s, of float_of_digits 5] s show ?thesis
    by (simp add: rule_chain)
qed

subsection \<open>The end of the sequence that check yields\<close>

text \<open>
  C9, as the code has it. When \<open>check\<close> runs to its end without an exception, what it
  yields is the diagnostics followed by exactly one None, whether the rule is enabled
  or not. When an exception ends it, it has yielded diagnostics only: the None is not
  reached.
\<close>

theorem check_ends_with_None:
  "(snd (check fos depth self) = None \<longrightarrow>
      (\<exists>ds. fst (check fos depth self) = map Diag ds @ [PyNone]))
   \<and> (snd (check fos depth self) \<noteq> None \<longrightarrow> PyNone \<notin> set (fst (check fos depth self)))"
proof (cases "py_getitem (l_settings self) ''checks''")
  case (Inl e)
  then show ?thesis by (simp add: check_def)
next
  case checks: (Inr checks)
  show ?thesis
  proof (cases "py_get checks ''diagnostic-definition-redundant-override'' (JBool False)")
    case (Inl e)
    with checks show ?thesis by (simp add: check_def)
  next
    case (Inr enabled)
    show ?thesis
    proof (cases "truthy enabled")
      case False
      with checks Inr show ?thesis by (simp add: check_def)
    next
      case True
      obtain ds e where r: "checkRedefineOverride fos depth self = (ds, e)"
        by (cases "checkRedefineOverride fos depth self")
      with checks Inr True show ?thesis
        by (cases e) (auto simp: check_def)
    qed
  qed
qed

text \<open>The chain A, B, C, where the rule runs to its end, and the target that names
  its parent by the path ./B, where the resolver raises KeyError; both linters are
  built by the constructor from their files.\<close>

theorem check_ends_with_None_witness:
  "Definition_init str_None chain_fs 5 file_A (rule_settings True) = Inr (chain_linter True)
   \<and> snd (check float_of_digits 5 (chain_linter True)) = None
   \<and> (\<exists>ds. fst (check float_of_digits 5 (chain_linter True)) = map Diag ds @ [PyNone])
   \<and> Definition_init str_None (files_with text_A_dot doc_A_dot) 5 file_A (rule_settings True)
       = Inr dot_linter
   \<and> snd (check float_of_digits 5 dot_linter) \<noteq> None
   \<and> PyNone \<notin> set (fst (check float_of_digits 5 dot_linter))"
  using check_ends_with_None [of float_of_digits 5 "chain_linter True"]
    check_ends_with_None [of float_of_digits 5 dot_linter]
  by (simp add: check_chain check_dot init_chain init_dot)

text \<open>
  C9 as stated fails. The target A names its parent by the path ./B. The constructor
  loads the parent from the file B.def.json beside A, stores it under the name B, and
  builds the linter. With the rule enabled, the resolver looks up ./B for the first
  override and raises KeyError, and the sequence that \<open>check\<close> yields ends there,
  empty: no None is yielded.
\<close>

theorem check_without_None:
  "Definition_init str_None (files_with text_A_dot doc_A_dot) 5 file_A (rule_settings True)
     = Inr dot_linter
   \<and> check float_of_digits 5 dot_linter = ([], Some KeyError)"
  by (simp add: init_dot check_dot)

subsection \<open>An ancestor that is not in the store\<close>

text \<open>
  C10. The target document declares overrides, the loop over them has reached one of
  them without an exception, and among the ancestors that the resolution of this
  override looks up there is a name that the store does not hold. Then
  \<open>checkRedefineOverride\<close> ends with KeyError, after the diagnostics of the overrides
  before.
\<close>

theorem missing_ancestor_KeyError:
  assumes target: "l_definitions self = (definition_name, definition) # others"
    and declared: "py_contains ''overrides'' definition = Inr True"
    and not_root: "definition_name \<noteq> ''fdmprinter''" "definition_name \<noteq> ''fdmextruder''"
    and overrides:
      "py_getitem definition ''overrides'' = Inr (JObj (before @ (key, value_dict) # rest))"
    and inherits: "py_getitem definition ''inherits'' = Inr inherits"
    and reached: "redefine_loop fos depth self definition before = (ds, None)"
    and named: "JStr name \<in> set (walk fos (l_definitions self) depth key value_dict inherits)"
    and missing: "map_of (l_definitions self) name = None"
  shows "isDefinedInParent fos (l_definitions self) depth key value_dict inherits = Inl KeyError
    \<and> checkRedefineOverride fos depth self = (ds, Some KeyError)"
proof -
  have r: "isDefinedInParent fos (l_definitions self) depth key value_dict inherits
      = Inl KeyError"
    using named missing by (rule walk_missing)
  then have "redefine_loop fos depth self definition ((key, value_dict) # rest)
      = ([], Some KeyError)"
    by (simp add: inherits)
  with reached have "redefine_loop fos depth self definition (before @ (key, value_dict) # rest)
      = (ds, Some KeyError)"
    by (simp add: redefine_loop_append)
  with r show ?thesis
    by (simp add: checkRedefineOverride_def target declared not_root overrides
        ebind_def py_items_def)
qed

text \<open>A inherits B, B declares no overrides and inherits C, and C is not in the
  store: the resolver looks up B, then C. And the linter that the constructor builds
  for a target that names its parent ./B: the store holds the parent under B.\<close>

theorem missing_ancestor_KeyError_witness:
  "JStr ''C'' \<in> set (walk float_of_digits (l_definitions broken_linter) 5 ''speed''
      (JObj [(''value'', JInt 50)]) (JStr ''B''))
   \<and> map_of (l_definitions broken_linter) ''C'' = None
   \<and> isDefinedInParent float_of_digits (l_definitions broken_linter) 5 ''speed''
        (JObj [(''value'', JInt 50)]) (JStr ''B'') = Inl KeyError
   \<and> checkRedefineOverride float_of_digits 5 broken_linter = ([], Some KeyError)
   \<and> Definition_init str_None (files_with text_A_dot doc_A_dot) 5 file_A (rule_settings True)
       = Inr dot_linter
   \<and> JStr ''./B'' \<in> set (walk float_of_digits (l_definitions dot_linter) 5 ''speed''
      (JObj [(''value'', JInt 50)]) (JStr ''./B''))
   \<and> map_of (l_definitions dot_linter) ''./B'' = None
   \<and> checkRedefineOverride float_of_digits 5 dot_linter = ([], Some KeyError)"
proof -
  have target: "l_definitions broken_linter
      = (''A'', doc_A) # [(''B'', doc_B), (''fdmprinter'', flat_base)]"
    by (simp add: broken_linter_def)
  have declared: "py_contains ''overrides'' doc_A = Inr True"
    and overrides: "py_getitem doc_A ''overrides''
      = Inr (JObj ([] @ (''speed'', JObj [(''value'', JInt 50)]) # []))"
    and inherits: "py_getitem doc_A ''inherits'' = Inr (JStr ''B'')"
    by (simp_all add: py_ops doc_A_def speed_is_def)
  have reached: "redefine_loop float_of_digits 5 broken_linter doc_A [] = ([], None)"
    by simp
  have named: "JStr ''C'' \<in> set (walk float_of_digits (l_definitions broken_linter) 5 ''speed''
      (JObj [(''value'', JInt 50)]) (JStr ''B''))"
    by (simp add: walk.simps [of _ _ 5] broken_linter_def py_ops resolve_body_def doc_B_def
        walk_start)
  have missing: "map_of (l_definitions broken_linter) ''C'' = None"
    by (simp add: broken_linter_def)
  have target': "l_definitions dot_linter
      = (''A'', doc_A_dot) # [(''B'', doc_B), (''C'', doc_C), (''fdmprinter'', flat_base)]"
    by (simp add: dot_linter_def)
  have declared': "py_contains ''overrides'' doc_A_dot = Inr True"
    and overrides': "py_getitem doc_A_dot ''overrides''
      = Inr (JObj ([] @ (''speed'', JObj [(''value'', JInt 50)]) # []))"
    by (simp_all add: py_ops doc_A_dot_def speed_is_def)
  have reached': "redefine_loop float_of_digits 5 dot_linter doc_A_dot [] = ([], None)"
    by simp
  have named': "JStr ''./B'' \<in> set (walk float_of_digits (l_definitions dot_linter) 5 ''speed''
      (JObj [(''value'', JInt 50)]) (JStr ''./B''))"
    by (rule walk_start)
  have missing': "map_of (l_definitions dot_linter) ''./B'' = None"
    by (simp add: dot_linter_def)
  from missing_ancestor_KeyError [OF target declared _ _ overrides inherits reached named missing]
    missing_ancestor_KeyError [OF target' declared' _ _ overrides' inherits_A_dot reached'
      named' missing']
    named missing named' missing'
  show ?thesis by (simp add: init_dot)
qed

subsection \<open>Loading\<close>

lemma map_of_dict_set:
  "map_of (dict_set m k v) k' = (if k' = k then Some v else map_of m k')"
  by (induction m) auto

lemma load_noop:
  "fs p = None \<or> map_of defs (derived_name p) \<noteq> None \<Longrightarrow>
   loadDefinitionFiles str_of fs depth p defs = Inr defs"
  by (subst loadDefinitionFiles.simps) (auto simp: load_body_def)

lemma load_body_keys:
  assumes "load_body str_of fs p defs = Inr (defs', up)"
  shows "(map_of defs k \<noteq> None \<longrightarrow> map_of defs' k \<noteq> None)
    \<and> (fs p \<noteq> None \<longrightarrow> map_of defs' (derived_name p) \<noteq> None)"
  using assms
  by (auto simp: load_body_def Let_def ebind_def map_of_dict_set
      split: if_splits sum.splits)

lemma load_keys:
  "loadDefinitionFiles str_of fs depth p defs = Inr defs' \<Longrightarrow>
   (\<forall>k. map_of defs k \<noteq> None \<longrightarrow> map_of defs' k \<noteq> None)
   \<and> (fs p \<noteq> None \<longrightarrow> map_of defs' (derived_name p) \<noteq> None)"
proof (induction depth arbitrary: p defs)
  case 0
  then obtain up where body: "load_body str_of fs p defs = Inr (defs', up)"
    by (subst (asm) loadDefinitionFiles.simps)
       (auto split: sum.splits option.splits)
  show ?case using load_body_keys [OF body] by blast
next
  case (Suc d)
  from Suc.prems obtain mid up where
    body: "load_body str_of fs p defs = Inr (mid, up)"
    and rest: "up = None \<and> mid = defs'
       \<or> (\<exists>q. up = Some q \<and> loadDefinitionFiles str_of fs d q mid = Inr defs')"
    by (subst (asm) loadDefinitionFiles.simps)
       (auto split: sum.splits option.splits)
  have mid: "\<forall>k. map_of defs k \<noteq> None \<longrightarrow> map_of mid k \<noteq> None"
    "fs p \<noteq> None \<longrightarrow> map_of mid (derived_name p) \<noteq> None"
    using load_body_keys [OF body] by blast+
  from rest show ?case
  proof
    assume "up = None \<and> mid = defs'"
    with mid show ?thesis by blast
  next
    assume "\<exists>q. up = Some q \<and> loadDefinitionFiles str_of fs d q mid = Inr defs'"
    then obtain q where "loadDefinitionFiles str_of fs d q mid = Inr defs'" by blast
    from Suc.IH [OF this]
    have "\<forall>k. map_of mid k \<noteq> None \<longrightarrow> map_of defs' k \<noteq> None" by blast
    with mid show ?thesis by blast
  qed
qed

lemma load_missing_parent:
  assumes "fs p = Some (File t (Inr doc))"
    and "map_of defs (derived_name p) = None"
    and "py_getitem doc ''inherits'' = Inr inherits"
    and "fs (parent_file_of str_of p inherits) = None"
  shows "loadDefinitionFiles str_of fs (Suc d) p defs = Inr (dict_set defs (derived_name p) doc)"
proof -
  from assms(3) have "py_contains ''inherits'' doc = Inr True"
    by (cases doc) (auto simp: py_getitem_def py_contains_def split: option.splits)
  with assms have "load_body str_of fs p defs
      = Inr (dict_set defs (derived_name p) doc, Some (parent_file_of str_of p inherits))"
    by (simp add: load_body_def Let_def ebind_def read_json_def)
  with assms(4) show ?thesis
    by (subst loadDefinitionFiles.simps) (simp add: load_noop)
qed

text \<open>
  C6. Loading is a no-op, and raises nothing, when the path does not exist or a
  document of the derived name is already in the store. So a second load of the same
  file leaves the store of the first unchanged, and a document whose parent file is
  missing is loaded alone.
\<close>

theorem load_idempotent:
  "(fs p = None \<or> map_of defs (derived_name p) \<noteq> None \<longrightarrow>
      loadDefinitionFiles str_of fs depth p defs = Inr defs)
   \<and> (loadDefinitionFiles str_of fs depth p defs = Inr defs' \<longrightarrow>
      loadDefinitionFiles str_of fs depth' p defs' = Inr defs')
   \<and> (fs p = Some (File t (Inr doc)) \<and> map_of defs (derived_name p) = None
      \<and> py_getitem doc ''inherits'' = Inr inherits
      \<and> fs (parent_file_of str_of p inherits) = None \<longrightarrow>
      loadDefinitionFiles str_of fs (Suc d) p defs = Inr (dict_set defs (derived_name p) doc))"
proof (intro conjI impI)
  assume "fs p = None \<or> map_of defs (derived_name p) \<noteq> None"
  then show "loadDefinitionFiles str_of fs depth p defs = Inr defs" by (rule load_noop)
next
  assume "loadDefinitionFiles str_of fs depth p defs = Inr defs'"
  from load_keys [OF this]
  have "fs p = None \<or> map_of defs' (derived_name p) \<noteq> None" by blast
  then show "loadDefinitionFiles str_of fs depth' p defs' = Inr defs'" by (rule load_noop)
next
  assume "fs p = Some (File t (Inr doc)) \<and> map_of defs (derived_name p) = None
      \<and> py_getitem doc ''inherits'' = Inr inherits
      \<and> fs (parent_file_of str_of p inherits) = None"
  then show "loadDefinitionFiles str_of fs (Suc d) p defs
      = Inr (dict_set defs (derived_name p) doc)"
    by (blast intro: load_missing_parent)
qed

lemma fs_B: "printers_fs file_B = Some (File [] (Inr doc_B))"
  by (simp add: printers_fs_def file_A_def file_B_def)

lemma fs_C: "printers_fs (Path False [''printers'', ''C.def.json'']) = None"
  by (simp add: printers_fs_def file_A_def file_B_def)

lemma inherits_B: "py_getitem doc_B ''inherits'' = Inr (JStr ''C'')"
  by (simp add: py_getitem_def doc_B_def)

lemma load_B: "loadDefinitionFiles str_None printers_fs 4 file_B [(''A'', doc_A)]
    = Inr [(''A'', doc_A), (''B'', doc_B)]"
proof -
  have "map_of [(''A'', doc_A)] (derived_name file_B) = None"
    by (simp add: name_B)
  from load_missing_parent [of printers_fs file_B "[]" doc_B "[(''A'', doc_A)]" "JStr ''C''"
      str_None 3, OF fs_B this inherits_B]
  show ?thesis
    by (simp add: parent_B fs_C name_B)
qed

lemma load_A: "loadDefinitionFiles str_None printers_fs 5 file_A []
    = Inr [(''A'', doc_A), (''B'', doc_B)]"
proof -
  have "load_body str_None printers_fs file_A [] = Inr ([(''A'', doc_A)], Some file_B)"
    by (simp add: load_body_def name_A printers_fs_def read_json_def ebind_def py_contains_def
        py_getitem_def doc_A_def parent_A [unfolded doc_A_def])
  then show ?thesis
    by (subst loadDefinitionFiles.simps) (simp add: load_B)
qed

text \<open>The directory of the examples: loading A loads B, stops at the missing file of
  C, and changes nothing when it is run again.\<close>

theorem load_idempotent_witness:
  "printers_fs (Path False [''printers'', ''C.def.json'']) = None
   \<and> loadDefinitionFiles str_None printers_fs 5 (Path False [''printers'', ''C.def.json'']) []
       = Inr []
   \<and> loadDefinitionFiles str_None printers_fs 5 file_A [] = Inr [(''A'', doc_A), (''B'', doc_B)]
   \<and> loadDefinitionFiles str_None printers_fs 5 file_A [(''A'', doc_A), (''B'', doc_B)]
       = Inr [(''A'', doc_A), (''B'', doc_B)]
   \<and> printers_fs file_B = Some (File [] (Inr doc_B))
   \<and> py_getitem doc_B ''inherits'' = Inr (JStr ''C'')
   \<and> printers_fs (parent_file_of str_None file_B (JStr ''C'')) = None
   \<and> loadDefinitionFiles str_None printers_fs 1 file_B [] = Inr [(''B'', doc_B)]"
proof -
  have n: "map_of [] (derived_name file_B) = (None :: json option)" by simp
  note t1 = load_idempotent [of printers_fs "Path False [''printers'', ''C.def.json'']" "[]"
      str_None 5]
  note t2 = load_idempotent [of printers_fs file_A "[]" str_None 5
      "[(''A'', doc_A), (''B'', doc_B)]" 5]
  note t3 = load_idempotent [of printers_fs file_B "[]" str_None 5 _ _ "[]" doc_B "JStr ''C''" 0]
  from t1 t2 t3 fs_C fs_B inherits_B n show ?thesis
    by (simp add: load_A parent_B name_B)
qed

subsection \<open>Flattening\<close>

lemma dict_set_new: "map_of m k = None \<Longrightarrow> dict_set m k v = m @ [(k, v)]"
  by (induction m) (auto split: if_splits)

lemma dict_set_old: "map_of m k \<noteq> None \<Longrightarrow> map fst (dict_set m k v) = map fst m"
  by (induction m) (auto split: if_splits)

lemma dict_set_fresh: "k \<notin> fst ` set m \<Longrightarrow> dict_set m k v = m @ [(k, v)]"
  by (simp add: dict_set_new map_of_eq_None_iff)

lemma keys_dict_set:
  "map fst (dict_set m k v) = (if k \<in> fst ` set m then map fst m else map fst m @ [k])"
proof (cases "map_of m k")
  case None
  then show ?thesis by (simp add: dict_set_new map_of_eq_None_iff)
next
  case (Some a)
  then have "map_of m k \<noteq> None" by simp
  then show ?thesis by (simp add: dict_set_old map_of_eq_None_iff)
qed

lemma set_keys_dict_set: "set (map fst (dict_set m k v)) = insert k (set (map fst m))"
  by (auto simp: keys_dict_set)

lemma keys_fold_dict_set:
  "set (map fst (fold (\<lambda>(k, v) s. dict_set s k v) xs acc))
     = set (map fst acc) \<union> set (map fst xs)"
proof (induction xs arbitrary: acc)
  case Nil
  then show ?case by simp
next
  case (Cons x xs)
  obtain k v where x: "x = (k, v)" by (cases x)
  have "set (map fst (fold (\<lambda>(k, v) s. dict_set s k v) xs (dict_set acc k v)))
      = set (map fst (dict_set acc k v)) \<union> set (map fst xs)"
    by (rule Cons.IH)
  also have "\<dots> = insert k (set (map fst acc)) \<union> set (map fst xs)"
    by (simp only: set_keys_dict_set)
  finally show ?case using x by simp
qed

lemma distinct_fold_dict_set:
  "distinct (map fst acc) \<Longrightarrow>
   distinct (map fst (fold (\<lambda>(k, v) s. dict_set s k v) xs acc))"
  by (induction xs arbitrary: acc) (auto simp: keys_dict_set)

lemma fold_dict_set_distinct:
  "distinct (map fst (acc @ xs)) \<Longrightarrow>
   fold (\<lambda>(k, v) s. dict_set s k v) xs acc = acc @ xs"
proof (induction xs arbitrary: acc)
  case Nil
  then show ?case by simp
next
  case (Cons x xs)
  obtain k v where x: "x = (k, v)" by (cases x)
  with Cons.prems have fresh: "k \<notin> fst ` set acc" by auto
  from Cons.prems x have "distinct (map fst ((acc @ [(k, v)]) @ xs))" by auto
  from Cons.IH [OF this] fresh x show ?case by (simp add: dict_set_fresh)
qed

lemma getSetting_postorder:
  "well_formed setting \<Longrightarrow>
     getSetting name setting settings
       = Inr (fold (\<lambda>(k, v) s. dict_set s k v) (postorder name setting) settings)"
  "all_well_formed kids \<Longrightarrow>
     getSettings kids settings
       = Inr (fold (\<lambda>(k, v) s. dict_set s k v) (postorder_all kids) settings)"
proof (induction name setting settings and kids settings rule: getSetting_getSettings.induct)
  case (1 name setting settings)
  from "1.prems" obtain kvs where s: "setting = JObj kvs"
    by (cases setting) (auto simp: well_formed.simps)
  show ?case
  proof (cases "map_of kvs ''children''")
    case None
    with s show ?thesis
      by (simp add: getSetting.simps postorder.simps py_contains_def)
  next
    case (Some c)
    with "1.prems" s obtain ks where c: "c = JObj ks" and wf: "all_well_formed ks"
      by (cases c) (auto simp: well_formed.simps)
    from s Some c have has: "py_contains ''children'' setting = Inr True"
      and get: "py_getitem setting ''children'' = Inr (JObj ks)"
      and items: "py_items (JObj ks) = Inr ks"
      by (simp_all add: py_contains_def py_getitem_def py_items_def)
    from "1.IH" [OF has _ get items wf]
    have "getSettings ks settings
        = Inr (fold (\<lambda>(k, v) s. dict_set s k v) (postorder_all ks) settings)"
      by simp
    with has get items s Some c show ?thesis
      by (simp add: getSetting.simps postorder.simps)
  qed
next
  case (2 settings)
  then show ?case by simp
next
  case (3 childname child rest settings)
  from "3.prems" have wf: "well_formed child" and wfs: "all_well_formed rest" by simp_all
  from "3.IH"(1) [OF wf]
  have a: "getSetting childname child settings
      = Inr (fold (\<lambda>(k, v) s. dict_set s k v) (postorder childname child) settings)" .
  from "3.IH"(2) [OF a wfs] a show ?case by simp
qed

text \<open>
  C7. For a settings tree of the shape the flattener reads, the flat mapping is the
  records of the tree in the order of their insertion, each node after the nodes below
  it, written into an empty dict: it has exactly the keys of the tree, each once, and
  when no key occurs twice in the tree it is the list of all nodes, none lost and none
  repeated. The base document is replaced by that mapping under overrides, and nothing
  else.
\<close>

theorem flatten_settings:
  assumes base: "map_of defs (base_def defs) = Some base"
    and tree: "py_getitem base ''settings'' = Inr (JObj tree)"
    and shape: "all_well_formed tree"
  shows "\<exists>flat defs'.
      loadBasePrinterSettings defs = Inr defs'
    \<and> defs' = dict_set defs (base_def defs) (JObj [(''overrides'', JObj flat)])
    \<and> map_of defs' (base_def defs) = Some (JObj [(''overrides'', JObj flat)])
    \<and> flat = fold (\<lambda>(k, v) s. dict_set s k v) (postorder_all tree) []
    \<and> set (map fst flat) = set (map fst (postorder_all tree))
    \<and> distinct (map fst flat)
    \<and> (distinct (map fst (postorder_all tree)) \<longrightarrow> flat = postorder_all tree)"
proof -
  let ?flat = "fold (\<lambda>(k, v) s. dict_set s k v) (postorder_all tree) []"
  have "loadBasePrinterSettings defs
      = Inr (dict_set defs (base_def defs) (JObj [(''overrides'', JObj ?flat)]))"
    using base tree getSetting_postorder(2) [OF shape, of "[]"]
    by (simp add: loadBasePrinterSettings_def store_get_def ebind_def py_items_def)
  moreover have "set (map fst ?flat) = set (map fst (postorder_all tree))"
    using keys_fold_dict_set [of "postorder_all tree" "[]"] by simp
  moreover have "distinct (map fst ?flat)"
    by (rule distinct_fold_dict_set) simp
  moreover have "distinct (map fst (postorder_all tree)) \<longrightarrow> ?flat = postorder_all tree"
    using fold_dict_set_distinct [of "[]" "postorder_all tree"] by simp
  ultimately show ?thesis by (simp add: map_of_dict_set)
qed

lemma postorder_resolution:
  "postorder_all [(''resolution'', resolution_node), (''speed'', speed_node)]
     = [(''layer_height'', layer_height), (''resolution'', resolution_node),
        (''speed'', speed_node)]"
  by (simp add: postorder.simps resolution_node_def speed_node_def layer_height_def)

lemma shape_resolution:
  "all_well_formed [(''resolution'', resolution_node), (''speed'', speed_node)]"
  by (simp add: well_formed.simps resolution_node_def speed_node_def layer_height_def)

text \<open>A tree with layer_height under resolution, and speed beside it.\<close>

theorem flatten_settings_witness:
  "all_well_formed [(''resolution'', resolution_node), (''speed'', speed_node)]
   \<and> distinct (map fst (postorder_all [(''resolution'', resolution_node), (''speed'', speed_node)]))
   \<and> loadBasePrinterSettings raw_base_store
       = Inr [(''A'', doc_A),
              (''fdmprinter'',
               JObj [(''overrides'',
                      JObj [(''layer_height'', layer_height), (''resolution'', resolution_node),
                            (''speed'', speed_node)])])]"
proof -
  have b: "base_def raw_base_store = ''fdmprinter''"
    by (simp add: base_def_def raw_base_store_def)
  have base: "map_of raw_base_store (base_def raw_base_store)
      = Some (JObj [(''name'', JStr ''FDM Printer''),
             (''settings'', JObj [(''resolution'', resolution_node), (''speed'', speed_node)])])"
    by (simp add: b) (simp add: raw_base_store_def)
  have tree: "py_getitem (JObj [(''name'', JStr ''FDM Printer''),
             (''settings'', JObj [(''resolution'', resolution_node), (''speed'', speed_node)])])
         ''settings''
      = Inr (JObj [(''resolution'', resolution_node), (''speed'', speed_node)])"
    by (simp add: py_getitem_def)
  have d: "distinct (map fst (postorder_all
      [(''resolution'', resolution_node), (''speed'', speed_node)]))"
    unfolding postorder_resolution by simp
  have s: "dict_set raw_base_store ''fdmprinter'' v = [(''A'', doc_A), (''fdmprinter'', v)]" for v
    by (simp add: raw_base_store_def)
  from flatten_settings [OF base tree shape_resolution] d shape_resolution
  show ?thesis
    unfolding postorder_resolution by (auto simp: b s)
qed

subsection \<open>The comparison of the resolver\<close>

lemma check_values_candidates: "check_values field (JObj entry) = Inr (candidates field entry)"
  by (simp add: check_values_def candidates_def py_get_def ebind_def)

lemma same_value_agrees:
  "same_value fos numeric field v cv = agrees fos numeric field v cv"
  by (auto simp: same_value_def agrees_def normalise_def split: option.splits)

lemma first_match_agrees:
  "first_match fos numeric field v cs = list_ex (agrees fos numeric field v) cs"
  by (induction cs) (simp_all add: same_value_agrees)

lemma scan_fields_step:
  assumes "map_of parent key = Some (JObj entry)"
  shows "scan_fields fos numeric key (JObj parent) ((field, v) # rest) =
     (if field_redundant fos numeric entry (field, v) then Inr (Matched field v)
      else case map_of parent ''inherits'' of
             Some up \<Rightarrow> Inr (Ascend up)
           | None \<Rightarrow> scan_fields fos numeric key (JObj parent) rest)"
  using assms
  by (simp add: py_contains_def py_getitem_def ebind_def check_values_candidates
      first_match_agrees field_redundant_def split: option.splits)

lemma scan_fields_find:
  assumes "map_of parent key = Some (JObj entry)" and "map_of parent ''inherits'' = None"
  shows "scan_fields fos numeric key (JObj parent) proposed =
     Inr (case find (field_redundant fos numeric entry) proposed of
            None \<Rightarrow> Exhausted
          | Some (field, v) \<Rightarrow> Matched field v)"
proof (induction proposed)
  case Nil
  then show ?case by simp
next
  case (Cons fv proposed)
  obtain field v where fv: "fv = (field, v)" by (cases fv)
  show ?case
    unfolding fv scan_fields_step [OF assms(1)]
    using assms(2) Cons.IH by simp
qed

lemma is_number_numeric:
  assumes "map_of defs (base_def defs) = Some (JObj base)"
    and "map_of base ''overrides'' = Some (JObj flat)"
    and "\<forall>spec. map_of flat key = Some spec \<longrightarrow>
           (\<exists>kvs t. spec = JObj kvs \<and> map_of kvs ''type'' = Some t)"
  shows "is_number_of defs key = Inr (numeric_mode flat key)"
proof (cases "map_of flat key")
  case None
  with assms(1,2) show ?thesis
    by (simp add: is_number_of_def numeric_mode_def store_get_def py_getitem_def
        py_contains_def ebind_def)
next
  case (Some spec)
  with assms(3) obtain kvs t where "spec = JObj kvs" "map_of kvs ''type'' = Some t"
    by blast
  with Some assms(1,2) show ?thesis
    by (auto simp: is_number_of_def numeric_mode_def store_get_def py_getitem_def
        py_contains_def ebind_def)
qed

lemma resolve_at_overrides:
  assumes "map_of defs ancestor = Some (JObj doc)"
    and "map_of doc ''overrides'' = Some (JObj parent)"
    and "is_number_of defs key = Inr numeric"
    and "scan_fields fos numeric key (JObj parent) proposed = Inr r"
  shows "isDefinedInParent fos defs depth key (JObj proposed) (JStr ancestor) =
     (case r of
        Matched field v \<Rightarrow> Inr (Redundant field v (JObj parent))
      | Exhausted \<Rightarrow> Inr NotRedundant
      | Ascend up \<Rightarrow>
          (case depth of
             0 \<Rightarrow> Inl RecursionError
           | Suc d \<Rightarrow> isDefinedInParent fos defs d key (JObj proposed) up))"
  using assms
  by (subst isDefinedInParent.simps)
     (simp add: resolve_body_def store_get_def py_contains_def py_getitem_def py_items_def
        ebind_def split: scan.splits)

text \<open>
  C3, as the code has it. Where the nearest ancestor with overrides declares the key
  and its overrides hold no inherits entry, the resolver returns the first proposed
  field that agrees with one of its candidates, and not redundant when none does. A
  proposed value and a candidate agree as float-normalised texts, with the fallback to
  the raw values, only when the key is typed float or int in the flattened base
  document and the proposed field is default_value or value; for every other field
  name, and for keys that the flattened base document does not hold or types
  otherwise, they agree when the raw values are equal.
\<close>

theorem resolve_compares:
  assumes base: "map_of defs (base_def defs) = Some (JObj base)"
      "map_of base ''overrides'' = Some (JObj flat)"
    and typed: "\<forall>spec. map_of flat key = Some spec \<longrightarrow>
           (\<exists>kvs t. spec = JObj kvs \<and> map_of kvs ''type'' = Some t)"
    and ancestor: "map_of defs ancestor = Some (JObj doc)"
      "map_of doc ''overrides'' = Some (JObj parent)"
      "map_of parent key = Some (JObj entry)"
      "map_of parent ''inherits'' = None"
  shows "isDefinedInParent fos defs depth key (JObj proposed) (JStr ancestor) =
     Inr (case find (field_redundant fos (numeric_mode flat key) entry) proposed of
            None \<Rightarrow> NotRedundant
          | Some (field, v) \<Rightarrow> Redundant field v (JObj parent))"
proof -
  note n = is_number_numeric [OF base typed]
  note s = scan_fields_find [OF ancestor(3,4), of fos "numeric_mode flat key" proposed]
  show ?thesis
    unfolding resolve_at_overrides [OF ancestor(1,2) n s]
    by (simp split: option.splits)
qed


lemmas bound_docs = bound_store_def flat_base_def speed_is_def

text \<open>In the store of A, B, C: speed is a float, C declares its default value 50, and
  the proposed value 50 agrees with it as a float.\<close>

theorem resolve_compares_witness:
  "numeric_mode
     [(''speed'', JObj [(''type'', JStr ''float''), (''default_value'', JInt 60)]),
      (''label'', JObj [(''type'', JStr ''str''), (''default_value'', JStr ''x'')])] ''speed''
   \<and> field_redundant float_of_digits True [(''default_value'', JInt 50)] (''value'', JInt 50)
   \<and> isDefinedInParent float_of_digits chain_store 5 ''speed'' (JObj [(''value'', JInt 50)])
        (JStr ''C'')
       = Inr (Redundant ''value'' (JInt 50) (JObj [(''speed'', JObj [(''default_value'', JInt 50)])]))"
proof -
  let ?flat = "[(''speed'', JObj [(''type'', JStr ''float''), (''default_value'', JInt 60)]),
      (''label'', JObj [(''type'', JStr ''str''), (''default_value'', JStr ''x'')])]"
  have base: "map_of chain_store (base_def chain_store) = Some (JObj [(''overrides'', JObj ?flat)])"
    "map_of [(''overrides'', JObj ?flat)] ''overrides'' = Some (JObj ?flat)"
    by (simp_all add: base_def_def chain_docs)
  have typed: "\<forall>spec. map_of ?flat ''speed'' = Some spec \<longrightarrow>
           (\<exists>kvs t. spec = JObj kvs \<and> map_of kvs ''type'' = Some t)"
    by simp
  have ancestor: "map_of chain_store ''C''
        = Some (JObj [(''inherits'', JStr ''fdmprinter''),
                      (''overrides'', JObj [(''speed'', JObj [(''default_value'', JInt 50)])])])"
    "map_of [(''inherits'', JStr ''fdmprinter''),
             (''overrides'', JObj [(''speed'', JObj [(''default_value'', JInt 50)])])] ''overrides''
        = Some (JObj [(''speed'', JObj [(''default_value'', JInt 50)])])"
    "map_of [(''speed'', JObj [(''default_value'', JInt 50)])] ''speed''
        = Some (JObj [(''default_value'', JInt 50)])"
    "map_of [(''speed'', JObj [(''default_value'', JInt 50)])] ''inherits'' = None"
    by (simp_all add: chain_docs)
  have n: "numeric_mode ?flat ''speed''"
    by (simp add: numeric_mode_def)
  have r: "field_redundant float_of_digits True [(''default_value'', JInt 50)] (''value'', JInt 50)"
    by (simp add: field_redundant_def candidates_def agrees_def py_float_def float_of_int_50)
  from resolve_compares [OF base typed ancestor, of float_of_digits 5 "[(''value'', JInt 50)]"]
    n r
  show ?thesis by simp
qed

text \<open>
  C3 as stated fails: speed is a float in the flattened base document, the parent
  bounds it from below by the int 10 and the target by the string "10". The two
  print the same float, so a comparison of normalised texts would find the override
  redundant; the resolver compares the raw values of a minimum_value and finds it not
  redundant.
\<close>

theorem minimum_value_compared_raw:
  "is_number_of bound_store ''speed'' = Inr True
   \<and> norm_eq (normalise float_of_digits (JStr ''10'')) (normalise float_of_digits (JInt 10))
   \<and> isDefinedInParent float_of_digits bound_store 5 ''speed''
        (JObj [(''minimum_value'', JStr ''10'')]) (JStr ''P'') = Inr NotRedundant"
  by (simp add: py_ops resolver_defs bound_docs float_of_digits_10 float_of_int_10)

subsection \<open>Numeric equivalence\<close>



subsection \<open>Walking the chain\<close>

lemma resolve_skip:
  assumes "map_of defs ancestor = Some (JObj doc)"
    and "map_of doc ''overrides'' = None"
    and "map_of doc ''inherits'' = Some up"
  shows "isDefinedInParent fos defs (Suc d) key value_dict (JStr ancestor)
     = isDefinedInParent fos defs d key value_dict up"
  using assms
  by (subst isDefinedInParent.simps)
     (simp add: resolve_body_def store_get_def py_contains_def py_getitem_def ebind_def)

lemma rule_on_target:
  assumes "l_definitions self = (definition_name, JObj A) # others"
    and "definition_name \<noteq> ''fdmprinter''" "definition_name \<noteq> ''fdmextruder''"
    and "map_of A ''overrides'' = Some (JObj overrides)"
  shows "checkRedefineOverride fos depth self
     = redefine_loop fos depth self (JObj A) overrides"
  using assms
  by (simp add: checkRedefineOverride_def py_contains_def py_getitem_def py_items_def ebind_def)

lemma value_50_redundant:
  assumes "map_of entry ''default_value'' = Some (JInt 50)"
  shows "field_redundant fos numeric entry (''value'', JInt 50)"
  using assms
  by (cases numeric)
     (simp_all add: field_redundant_def candidates_def agrees_def py_float_def float_of_int_50
        num_eq_def numval_def)

text \<open>
  C2, as the code has it. A target document inherits b and overrides speed with
  value 50; b declares no overrides and inherits c; the overrides of c declare speed
  with the default value 50. Then the resolver, started at b, steps over b and returns
  the override as redundant together with the overrides of c, and the rule emits one
  diagnostic for it. The message of the diagnostic names the parent definition that
  the target inherits, b: the resolver does not return the name of the ancestor where
  it found the value, and the message does not use what it returns of it.
\<close>

theorem chain_walking:
  assumes target: "l_definitions self = (definition_name, JObj A) # others"
      "definition_name \<noteq> ''fdmprinter''" "definition_name \<noteq> ''fdmextruder''"
      "map_of A ''inherits'' = Some (JStr b)"
      "map_of A ''overrides'' = Some (JObj [(''speed'', JObj [(''value'', JInt 50)])])"
    and B: "map_of (l_definitions self) b = Some (JObj B)"
      "map_of B ''overrides'' = None" "map_of B ''inherits'' = Some (JStr c)"
    and C: "map_of (l_definitions self) c = Some (JObj C)"
      "map_of C ''overrides'' = Some (JObj parent)"
      "map_of parent ''speed'' = Some (JObj entry)"
      "map_of entry ''default_value'' = Some (JInt 50)"
    and typed: "is_number_of (l_definitions self) ''speed'' = Inr numeric"
    and found: "re_search ''speed'' (l_content self) = Some found"
  shows "isDefinedInParent fos (l_definitions self) (Suc depth) ''speed''
        (JObj [(''value'', JInt 50)]) (JStr b)
       = Inr (Redundant ''value'' (JInt 50) (JObj parent))
    \<and> checkRedefineOverride fos (Suc depth) self
       = ([make_diagnostic self ''speed'' ''value'' (JInt 50) (JStr b) found], None)
    \<and> last (message (make_diagnostic self ''speed'' ''value'' (JInt 50) (JStr b) found))
       = Str (JStr b)"
proof -
  have s: "scan_fields fos numeric ''speed'' (JObj parent) [(''value'', JInt 50)]
      = Inr (Matched ''value'' (JInt 50))"
    by (subst scan_fields_step [OF C(3)]) (simp add: value_50_redundant [OF C(4)])
  have r: "isDefinedInParent fos (l_definitions self) (Suc depth) ''speed''
        (JObj [(''value'', JInt 50)]) (JStr b)
       = Inr (Redundant ''value'' (JInt 50) (JObj parent))"
    unfolding resolve_skip [OF B] resolve_at_overrides [OF C(1,2) typed s] by simp
  have "checkRedefineOverride fos (Suc depth) self
       = ([make_diagnostic self ''speed'' ''value'' (JInt 50) (JStr b) found], None)"
    unfolding rule_on_target [OF target(1,2,3,5)]
    by (simp add: py_getitem_def target(4) r found)
  with r show ?thesis by (simp add: make_diagnostic_def)
qed

theorem chain_walking_witness:
  "isDefinedInParent float_of_digits chain_store 5 ''speed'' (JObj [(''value'', JInt 50)])
      (JStr ''B'')
     = Inr (Redundant ''value'' (JInt 50) (JObj [(''speed'', JObj [(''default_value'', JInt 50)])]))
   \<and> checkRedefineOverride float_of_digits 5 (chain_linter True)
     = ([make_diagnostic (chain_linter True) ''speed'' ''value'' (JInt 50) (JStr ''B'')
          \<lparr>m_start = 0, m_end = 54, g_start = 32, g_end = 41\<rparr>], None)
   \<and> last (message (make_diagnostic (chain_linter True) ''speed'' ''value'' (JInt 50)
          (JStr ''B'') \<lparr>m_start = 0, m_end = 54, g_start = 32, g_end = 41\<rparr>))
     = Str (JStr ''B'')"
proof -
  let ?self = "chain_linter True"
  let ?A = "[(''inherits'', JStr ''B''),
             (''overrides'', JObj [(''speed'', JObj [(''value'', JInt 50)])])]"
  let ?C = "[(''inherits'', JStr ''fdmprinter''),
             (''overrides'', JObj [(''speed'', JObj [(''default_value'', JInt 50)])])]"
  have store: "l_definitions ?self = chain_store"
    by (simp add: chain_linter_def)
  have target: "l_definitions ?self = (''A'', JObj ?A) # tl chain_store"
    "''A'' \<noteq> ''fdmprinter''" "''A'' \<noteq> ''fdmextruder''"
    "map_of ?A ''inherits'' = Some (JStr ''B'')"
    "map_of ?A ''overrides'' = Some (JObj [(''speed'', JObj [(''value'', JInt 50)])])"
    by (simp_all add: chain_linter_def chain_docs)
  have B: "map_of (l_definitions ?self) ''B'' = Some (JObj [(''inherits'', JStr ''C'')])"
    "map_of [(''inherits'', JStr ''C'')] ''overrides'' = None"
    "map_of [(''inherits'', JStr ''C'')] ''inherits'' = Some (JStr ''C'')"
    by (simp_all add: store chain_docs)
  have C: "map_of (l_definitions ?self) ''C'' = Some (JObj ?C)"
    "map_of ?C ''overrides'' = Some (JObj [(''speed'', JObj [(''default_value'', JInt 50)])])"
    "map_of [(''speed'', JObj [(''default_value'', JInt 50)])] ''speed''
       = Some (JObj [(''default_value'', JInt 50)])"
    "map_of [(''default_value'', JInt 50)] ''default_value'' = Some (JInt 50)"
    by (simp_all add: store chain_docs)
  have typed: "is_number_of (l_definitions ?self) ''speed'' = Inr True"
    by (simp add: store is_number_of_def py_ops chain_docs)
  have found: "re_search ''speed'' (l_content ?self)
      = Some \<lparr>m_start = 0, m_end = 54, g_start = 32, g_end = 41\<rparr>"
    by (simp add: chain_linter_def search_text_A)
  from chain_walking [OF target B C typed found, of float_of_digits 4]
  show ?thesis by (simp add: store)
qed

text \<open>
  C2 as stated fails in its last part: for the chain A, B, C the rule judges the
  override redundant, and the one diagnostic it emits ends its message with the name
  B, not C.
\<close>

theorem diagnostic_names_B:
  "check float_of_digits 5 (chain_linter True) =
     ([Diag \<lparr>d_file = file_A,
        diagnostic_name = ''diagnostic-definition-redundant-override'',
        message =
          [Lit ''Overriding '', Lit ''speed'', Lit '' with the same value ('', Lit ''value'',
           Lit '': '', Str (JInt 50), Lit '') as defined in parent definition: '',
           Str (JStr ''B'')],
        level = ''Warning'',
        d_offset = 0,
        replacements =
          [\<lparr>r_file = file_A, r_offset = 32, r_length = 54,
            replacement_text = []\<rparr>]\<rparr>,
       PyNone],
      None)"
  by (rule check_chain)

subsection \<open>An ancestor with overrides of its own\<close>

lemmas own_docs = own_store_def doc_A_def doc_B_own_def doc_C_def flat_base_def speed_is_def

text \<open>
  C1 does not hold of the code. B declares speed with value 40 and inherits C, which
  declares the default value 50 that A proposes. Started at B, the resolver finds no
  match and returns not redundant without going on to C: the test at line 113 looks
  for the key inherits among the overrides of B, where only setting keys are, and not
  in the document of B. Started at C, the same resolution finds the match.
\<close>

theorem resolver_stops_at_B:
  "isDefinedInParent float_of_digits own_store 5 ''speed'' (JObj [(''value'', JInt 50)])
      (JStr ''B'') = Inr NotRedundant
   \<and> isDefinedInParent float_of_digits own_store 5 ''speed'' (JObj [(''value'', JInt 50)])
      (JStr ''C'')
     = Inr (Redundant ''value'' (JInt 50) (JObj [(''speed'', JObj [(''default_value'', JInt 50)])]))"
proof -
  have "float_of_int 40 = Some (Fin 40)"
    using float_of_small_int [of 40] by simp
  then show ?thesis
    by (simp add: py_ops resolver_defs own_docs float_of_int_50)
qed

subsection \<open>The matched text\<close>

lemma find_char_Some: "find_char c s = Some i \<Longrightarrow> i < length s \<and> s ! i = c"
  by (induction s arbitrary: i) (auto split: if_splits)

lemma match_rest_end:
  assumes "match_rest q s = Some (g, e)"
  shows "g < e \<and> e \<le> length s \<and> (s ! (e - 1) = CHR ''}'' \<or> s ! (e - 1) = CHR '','')"
proof -
  from assms obtain a b where
    a: "find_char (CHR ''{'') (drop (length q) s) = Some a"
    and b: "find_char (CHR ''}'') (drop (length q + a + 1) s) = Some b"
    and g: "g = length q + a"
    and e: "e = (if take 1 (drop (length q + a + 1 + b + 1) s) = '','' then
                   length q + a + 1 + b + 1 + 1 else length q + a + 1 + b + 1)"
    by (auto simp: match_rest_def Let_def split: if_splits option.splits)
  let ?k = "length q + a + 1 + b"
  from find_char_Some [OF b] have k: "?k < length s" and brace: "s ! ?k = CHR ''}''"
    by (auto simp: add.commute add.left_commute)
  show ?thesis
  proof (cases "take 1 (drop (?k + 1) s) = '',''")
    case False
    with e g k brace show ?thesis by simp
  next
    case True
    then have "drop (?k + 1) s \<noteq> []" by auto
    then have lt: "?k + 1 < length s" by simp
    from True have "hd (drop (?k + 1) s) = CHR '',''"
      by (cases "drop (?k + 1) s") auto
    with lt have "s ! (?k + 1) = CHR '',''" by (simp add: hd_drop_conv_nth)
    with True e g lt show ?thesis by simp
  qed
qed

lemma match_back_end:
  "match_back q s d = Some (j, g, e) \<Longrightarrow>
   j \<le> g \<and> g < e \<and> e \<le> length s \<and> (s ! (e - 1) = CHR ''}'' \<or> s ! (e - 1) = CHR '','')"
proof (induction d)
  case 0
  then obtain g' e' where r: "match_rest q s = Some (g', e')" and "j = 0" "g = g'" "e = e'"
    by (auto split: option.splits)
  with match_rest_end [OF r] show ?case by simp
next
  case (Suc d)
  show ?case
  proof (cases "match_rest q (drop (Suc d) s)")
    case None
    with Suc show ?thesis by simp
  next
    case (Some ge)
    obtain g' e' where ge: "ge = (g', e')" by (cases ge)
    with Some Suc.prems have j: "j = Suc d" and g: "g = Suc d + g'" and e: "e = Suc d + e'"
      by simp_all
    from match_rest_end [OF Some [unfolded ge]]
    have r: "g' < e'" "e' \<le> length s - Suc d"
      "drop (Suc d) s ! (e' - 1) = CHR ''}'' \<or> drop (Suc d) s ! (e' - 1) = CHR '',''"
      by simp_all
    from r(1,2) have le: "Suc d + e' \<le> length s" by linarith
    from r(1) le have "drop (Suc d) s ! (e' - 1) = s ! (Suc d + e' - 1)"
      by (simp add: nth_drop)
    with r j g e le show ?thesis by simp
  qed
qed

lemma search_from_end:
  "search_from q s i = Some found \<Longrightarrow>
   \<exists>k e. m_start found = i + k \<and> m_end found = i + k + e \<and> 0 < e \<and> k + e \<le> length s
     \<and> (s ! (k + e - 1) = CHR ''}'' \<or> s ! (k + e - 1) = CHR '','')"
proof (induction s arbitrary: i)
  case Nil
  then obtain j g e where "match_here q [] = Some (j, g, e)"
    by (auto split: option.splits)
  from match_back_end [OF this [unfolded match_here_def]] have "g < e \<and> e \<le> 0"
    by auto
  then have False by auto
  then show ?case ..
next
  case (Cons c cs)
  show ?case
  proof (cases "match_here q (c # cs)")
    case None
    with Cons.prems have "search_from q cs (Suc i) = Some found" by simp
    from Cons.IH [OF this] obtain k e where
      "m_start found = Suc i + k" "m_end found = Suc i + k + e" "0 < e" "k + e \<le> length cs"
      "cs ! (k + e - 1) = CHR ''}'' \<or> cs ! (k + e - 1) = CHR '',''"
      by blast
    then have "m_start found = i + Suc k \<and> m_end found = i + Suc k + e \<and> 0 < e
        \<and> Suc k + e \<le> length (c # cs)
        \<and> ((c # cs) ! (Suc k + e - 1) = CHR ''}'' \<or> (c # cs) ! (Suc k + e - 1) = CHR '','')"
      by (cases e) auto
    then show ?thesis by blast
  next
    case (Some jge)
    obtain j g e where jge: "jge = (j, g, e)" by (cases jge)
    from match_back_end [OF Some [unfolded jge match_here_def]]
    have "g < e" "e \<le> length (c # cs)"
      "(c # cs) ! (e - 1) = CHR ''}'' \<or> (c # cs) ! (e - 1) = CHR '',''"
      by simp_all
    moreover from Some jge Cons.prems have "m_start found = i" "m_end found = i + e"
      by auto
    ultimately have "m_start found = i + 0 \<and> m_end found = i + 0 + e \<and> 0 < e
        \<and> 0 + e \<le> length (c # cs)
        \<and> ((c # cs) ! (0 + e - 1) = CHR ''}'' \<or> (c # cs) ! (0 + e - 1) = CHR '','')"
      by simp
    then show ?thesis by blast
  qed
qed

lemma matched_text_end:
  assumes "re_search key content = Some found"
  shows "group content found \<noteq> []
    \<and> (last (group content found) = CHR ''}'' \<or> last (group content found) = CHR '','')"
proof -
  from search_from_end [OF assms [unfolded re_search_def]] obtain k e where
    f: "m_start found = k" "m_end found = k + e" "0 < e" "k + e \<le> length content"
    and c: "content ! (k + e - 1) = CHR ''}'' \<or> content ! (k + e - 1) = CHR '',''"
    by auto
  from f have g: "group content found = take e (drop k content)"
    by (simp add: group_def)
  from f have len: "length (take e (drop k content)) = e" by simp
  with f have ne: "take e (drop k content) \<noteq> []" by auto
  from f have "e - 1 < e" by simp
  with len ne f have "last (take e (drop k content)) = content ! (k + (e - 1))"
    by (simp add: last_conv_nth)
  with f c g ne show ?thesis by simp
qed

subsection \<open>The lines of a text\<close>

lemma split_lines_nonempty: "s \<noteq> [] \<Longrightarrow> split_lines cur s \<noteq> []"
  by (induction cur s rule: split_lines.induct) auto

lemma split_lines_one:
  "s \<noteq> [] \<Longrightarrow> \<forall>c\<in>set s. \<not> is_boundary c \<Longrightarrow> split_lines cur s = [rev cur @ s]"
proof (induction cur s rule: split_lines.induct)
  case (1 cur)
  then show ?case by simp
next
  case (2 cur c)
  then show ?case by simp
next
  case (3 cur c d cs)
  from "3.prems" have c: "\<not> is_boundary c" and rest: "\<forall>x\<in>set (d # cs). \<not> is_boundary x"
    by simp_all
  from c have "c \<noteq> CHR 0x0D" by (auto simp: is_boundary_def)
  with c "3.IH"(3) rest show ?case by simp
qed

lemma split_lines_more:
  "s \<noteq> [] \<Longrightarrow> \<not> is_boundary (last s) \<Longrightarrow> \<exists>c\<in>set s. is_boundary c \<Longrightarrow>
   1 < length (split_lines cur s)"
proof (induction cur s rule: split_lines.induct)
  case (1 cur)
  then show ?case by simp
next
  case (2 cur c)
  then show ?case by simp
next
  case (3 cur c d cs)
  show ?case
  proof (cases "c = CHR 0x0D \<and> d = CHR 0x0A")
    case True
    then have "is_boundary d" by (simp add: is_boundary_def)
    with "3.prems"(2) have "cs \<noteq> []" by auto
    then have "split_lines [] cs \<noteq> []" by (rule split_lines_nonempty)
    with True show ?thesis by (cases "split_lines [] cs") simp_all
  next
    case False
    show ?thesis
    proof (cases "is_boundary c")
      case True
      have "split_lines [] (d # cs) \<noteq> []" by (rule split_lines_nonempty) simp
      with True False show ?thesis by (cases "split_lines [] (d # cs)") auto
    next
      case nb: False
      with "3.prems" have "\<exists>x\<in>set (d # cs). is_boundary x"
        and "\<not> is_boundary (last (d # cs))"
        by auto
      moreover from nb have "c \<noteq> CHR 0x0D" by (auto simp: is_boundary_def)
      ultimately show ?thesis using "3.IH"(3) [OF False nb] nb by simp
    qed
  qed
qed

lemma matched_text_lines:
  assumes "re_search key content = Some found"
  shows "1 < length (splitlines (group content found))
     \<longleftrightarrow> (\<exists>c\<in>set (group content found). is_boundary c)"
proof -
  let ?g = "group content found"
  from matched_text_end [OF assms] have ne: "?g \<noteq> []"
    and "last ?g = CHR ''}'' \<or> last ?g = CHR '',''"
    by simp_all
  then have nb: "\<not> is_boundary (last ?g)" by (auto simp: is_boundary_def)
  show ?thesis
  proof (cases "\<exists>c\<in>set ?g. is_boundary c")
    case True
    with split_lines_more [OF ne nb] show ?thesis by (simp add: splitlines_def)
  next
    case False
    with split_lines_one [OF ne, of "[]"] show ?thesis by (simp add: splitlines_def)
  qed
qed

subsection \<open>The replacement of a diagnostic\<close>

lemma redefine_loop_emits:
  "d \<in> set (fst (redefine_loop fos depth self definition overrides)) \<Longrightarrow>
   \<exists>key value_dict child_key child_value parent inherits found.
     isDefinedInParent fos (l_definitions self) depth key value_dict inherits
         = Inr (Redundant child_key child_value parent)
     \<and> re_search key (l_content self) = Some found
     \<and> d = make_diagnostic self key child_key child_value inherits found"
proof (induction overrides)
  case Nil
  then show ?case by simp
next
  case (Cons kv overrides)
  obtain key value_dict where kv: "kv = (key, value_dict)" by (cases kv)
  show ?case
  proof (cases "py_getitem definition ''inherits''")
    case (Inl e)
    with Cons.prems kv show ?thesis by simp
  next
    case inh: (Inr inherits)
    show ?thesis
    proof (cases "isDefinedInParent fos (l_definitions self) depth key value_dict inherits")
      case (Inl e)
      with Cons.prems kv inh show ?thesis by simp
    next
      case res: (Inr r)
      show ?thesis
      proof (cases r)
        case NotRedundant
        with Cons.prems kv inh res
        have "d \<in> set (fst (redefine_loop fos depth self definition overrides))" by simp
        from Cons.IH [OF this] show ?thesis .
      next
        case (Redundant child_key child_value parent)
        show ?thesis
        proof (cases "re_search key (l_content self)")
          case None
          with Cons.prems kv inh res Redundant show ?thesis by simp
        next
          case (Some found)
          with Cons.prems kv inh res Redundant
          have "d = make_diagnostic self key child_key child_value inherits found
              \<or> d \<in> set (fst (redefine_loop fos depth self definition overrides))"
            by (auto split: prod.splits)
          then show ?thesis
          proof
            assume "d = make_diagnostic self key child_key child_value inherits found"
            with res Redundant Some show ?thesis by blast
          next
            assume "d \<in> set (fst (redefine_loop fos depth self definition overrides))"
            from Cons.IH [OF this] show ?thesis .
          qed
        qed
      qed
    qed
  qed
qed

lemma check_emits:
  assumes "Diag d \<in> set (fst (check fos depth self))"
  shows "\<exists>key value_dict child_key child_value parent inherits found.
       isDefinedInParent fos (l_definitions self) depth key value_dict inherits
         = Inr (Redundant child_key child_value parent)
     \<and> re_search key (l_content self) = Some found
     \<and> d = make_diagnostic self key child_key child_value inherits found"
proof -
  from assms have "d \<in> set (fst (checkRedefineOverride fos depth self))"
    by (auto simp: check_def split: sum.splits if_splits prod.splits option.splits)
  then obtain target overrides where
    "d \<in> set (fst (redefine_loop fos depth self target overrides))"
    by (auto simp: checkRedefineOverride_def split: list.splits sum.splits if_splits)
  from redefine_loop_emits [OF this] show ?thesis by blast
qed

lemma yielded_diagnostic_shape:
  assumes "Diag d \<in> set (fst (check fos depth self))"
  shows "\<exists>key value_dict child_key child_value parent inherits found.
       isDefinedInParent fos (l_definitions self) depth key value_dict inherits
         = Inr (Redundant child_key child_value parent)
     \<and> re_search key (l_content self) = Some found
     \<and> d_offset d = m_start found
     \<and> (if \<exists>c\<in>set (group (l_content self) found). is_boundary c
         then replacements d = []
         else \<exists>r. replacements d = [r] \<and> r_file r = l_file self
                \<and> r_offset r = g_start found \<and> replacement_text r = [])"
proof -
  from check_emits [OF assms] obtain key value_dict child_key child_value parent inherits found
    where r: "isDefinedInParent fos (l_definitions self) depth key value_dict inherits
         = Inr (Redundant child_key child_value parent)"
      and f: "re_search key (l_content self) = Some found"
      and d: "d = make_diagnostic self key child_key child_value inherits found"
    by blast
  from d have off: "d_offset d = m_start found"
    by (simp add: make_diagnostic_def)
  have "if \<exists>c\<in>set (group (l_content self) found). is_boundary c
         then replacements d = []
         else \<exists>r. replacements d = [r] \<and> r_file r = l_file self
                \<and> r_offset r = g_start found \<and> replacement_text r = []"
    using matched_text_lines [OF f] d by (simp add: make_diagnostic_def)
  with r f off show ?thesis by blast
qed


lemma rule_on_chain_store:
  assumes "l_definitions self = chain_store"
    and "re_search ''speed'' (l_content self) = Some found"
  shows "checkRedefineOverride fos 5 self
     = ([make_diagnostic self ''speed'' ''value'' (JInt 50) (JStr ''B'') found], None)"
proof -
  have target: "l_definitions self
      = (''A'', JObj [(''inherits'', JStr ''B''),
                      (''overrides'', JObj [(''speed'', JObj [(''value'', JInt 50)])])])
        # tl chain_store"
    by (simp add: assms(1) chain_docs)
  have r: "isDefinedInParent fos (l_definitions self) 5 ''speed'' (JObj [(''value'', JInt 50)])
      (JStr ''B'')
     = Inr (Redundant ''value'' (JInt 50) (speed_is ''default_value'' (JInt 50)))"
    by (simp add: assms(1) resolve_chain)
  show ?thesis
    unfolding rule_on_target [OF target, of "[(''speed'', JObj [(''value'', JInt 50)])]", simplified]
    by (simp add: py_getitem_def r assms(2))
qed

lemma check_on_chain_store:
  assumes "l_definitions self = chain_store"
    and "l_settings self = rule_settings True"
    and "re_search ''speed'' (l_content self) = Some found"
  shows "check fos 5 self
     = ([Diag (make_diagnostic self ''speed'' ''value'' (JInt 50) (JStr ''B'') found), PyNone],
        None)"
  using assms(2)
  by (simp add: check_def rule_settings_def py_getitem_def py_get_def truthy_def
      rule_on_chain_store [OF assms(1,3)])

lemma search_text_A_lines:
  "re_search ''speed'' text_A_lines
     = Some \<lparr>m_start = 34, m_end = 56, g_start = 34, g_end = 43\<rparr>"
  by (simp add: regex_defs text_A_lines_def)


lemma check_lines:
  "check fos 5 lines_linter =
     ([Diag \<lparr>d_file = file_A,
        diagnostic_name = ''diagnostic-definition-redundant-override'',
        message =
          [Lit ''Overriding '', Lit ''speed'', Lit '' with the same value ('', Lit ''value'',
           Lit '': '', Str (JInt 50), Lit '') as defined in parent definition: '',
           Str (JStr ''B'')],
        level = ''Warning'',
        d_offset = 34,
        replacements = []\<rparr>,
       PyNone],
      None)"
proof -
  have s: "l_definitions lines_linter = chain_store"
    "l_settings lines_linter = rule_settings True"
    "re_search ''speed'' (l_content lines_linter)
       = Some \<lparr>m_start = 34, m_end = 56, g_start = 34, g_end = 43\<rparr>"
    by (simp_all add: lines_linter_def chain_linter_def search_text_A_lines)
  have "length (splitlines (group text_A_lines
      \<lparr>m_start = 34, m_end = 56, g_start = 34, g_end = 43\<rparr>)) = 2"
    by (simp add: group_def splitlines_def text_A_lines_def quoted_def dquote_def newline_def
        is_boundary_def)
  then show ?thesis
    unfolding check_on_chain_store [OF s]
    by (simp add: make_diagnostic_def lines_linter_def chain_linter_def)
qed




end
